theory Spec2Isabelle
  imports Main "HOL-Library.AList" "HOL-Library.Monad_Syntax"
begin

section \<open>Data model of the coordinate navigator\<close>

text \<open>
  The axis index types are type parameters (\<open>ColumnIndex\<close>, \<open>RowIndex\<close> in the source);
  \<open>===\<close> on indices is HOL equality. An adjacent-index finder returns \<open>undefined\<close> at a
  boundary, which is \<open>None\<close> here; an index sorter returns a number of which only the sign
  is read, an \<open>int\<close> here.
\<close>

text \<open>
  Modelled from the spec: the class \<open>Coordinate\<close> (\<open>grid/coordinate\<close>) is imported by
  the navigator and its declaration is missing; it is the immutable pair of a column
  index and a row index, equal to another when both components are.
\<close>

datatype ('c, 'r) Coordinate = Coordinate (columnIndex: 'c) (rowIndex: 'r)

text \<open>
  Modelled from the spec: the enumeration \<open>ShipDirection\<close> (\<open>ship/ship-direction\<close>) is
  missing; its two values are HORIZONTAL (a shared row index) and VERTICAL (a shared
  column index).
\<close>

datatype ShipDirection = HORIZONTAL | VERTICAL

text \<open>
  Modelled from the spec: the type \<open>ShipSize\<close> (\<open>ship/ship-size\<close>) is missing; it is the
  positive integer size bound, a natural number here, so that the assertions of
  \<open>findNextIndexByStep\<close> on its step (an integer, not negative) hold by typing.
\<close>

type_synonym ShipSize = nat

type_synonym 'i AdjacentIndexFinder = "'i \<Rightarrow> 'i option"

type_synonym 'i IndexSorter = "'i \<Rightarrow> 'i \<Rightarrow> int"

record ('c, 'r) CoordinateAlignment =
  direction :: ShipDirection
  coordinates :: "('c, 'r) Coordinate list"

record ('c, 'r) CoordinateNavigator =
  findPreviousColumnIndex :: "'c AdjacentIndexFinder"
  findNextColumnIndex :: "'c AdjacentIndexFinder"
  columnIndexSorter :: "'c IndexSorter"
  findPreviousRowIndex :: "'r AdjacentIndexFinder"
  findNextRowIndex :: "'r AdjacentIndexFinder"
  rowIndexSorter :: "'r IndexSorter"
  reference :: "('c, 'r) Coordinate"

datatype ('c, 'r) error =
  NonAlignedCoordinates "('c, 'r) Coordinate" "('c, 'r) Coordinate"
| AssertionError

subsection \<open>Library operations used by the source\<close>

text \<open>
  \<open>sort(comparator)\<close> of arrays and of Immutable lists is stable; it is the stable insertion
  sort here: an element goes in front of the first element it does not compare greater
  than. For a comparator that is a total preorder this is the one stable sorted
  arrangement of the input.
\<close>

fun insort_by :: "('a \<Rightarrow> 'a \<Rightarrow> int) \<Rightarrow> 'a \<Rightarrow> 'a list \<Rightarrow> 'a list" where
  "insort_by cmp x [] = [x]"
| "insort_by cmp x (y # ys) = (if cmp x y \<le> 0 then x # y # ys else y # insort_by cmp x ys)"

definition sort_by :: "('a \<Rightarrow> 'a \<Rightarrow> int) \<Rightarrow> 'a list \<Rightarrow> 'a list" where
  "sort_by cmp xs = foldr (insort_by cmp) xs []"

text \<open>\<open>filter(isNotUndefined)\<close>: the defined values, in order.\<close>

fun filter_isNotUndefined :: "'a option list \<Rightarrow> 'a list" where
  "filter_isNotUndefined [] = []"
| "filter_isNotUndefined (None # xs) = filter_isNotUndefined xs"
| "filter_isNotUndefined (Some x # xs) = x # filter_isNotUndefined xs"

text \<open>
  Modelled from the spec: the \<open>Either\<close> helper (\<open>utils/either\<close>) is missing; it is
  the two-armed outcome type, \<open>Inl\<close> the failure arm (\<open>Either.left\<close>) and \<open>Inr\<close> the
  success arm; \<open>swap\<close> exchanges the arms and \<open>map\<close> acts on the success arm.
\<close>

fun Either_swap :: "'a + 'b \<Rightarrow> 'b + 'a" where
  "Either_swap (Inl a) = Inr a"
| "Either_swap (Inr b) = Inl b"

fun Either_map :: "('b \<Rightarrow> 'c) \<Rightarrow> 'a + 'b \<Rightarrow> 'a + 'c" where
  "Either_map f (Inl a) = Inl a"
| "Either_map f (Inr b) = Inr (f b)"

section \<open>Sorting and adjacency\<close>

definition createCoordinatesSorter ::
  "('c, 'r) CoordinateNavigator \<Rightarrow> ('c, 'r) Coordinate \<Rightarrow> ('c, 'r) Coordinate \<Rightarrow> int" where
  "createCoordinatesSorter nav left right =
     (let rowSortResult = rowIndexSorter nav (rowIndex left) (rowIndex right)
      in if rowSortResult \<noteq> 0 then rowSortResult
         else columnIndexSorter nav (columnIndex left) (columnIndex right))"

definition getSurroundingCoordinates ::
  "('c, 'r) CoordinateNavigator \<Rightarrow> ('c, 'r) Coordinate \<Rightarrow> ('c, 'r) Coordinate list" where
  "getSurroundingCoordinates nav target =
     (let targetColumnIndex = columnIndex target;
          targetRowIndex = rowIndex target;
          potentialColumnIndices = filter_isNotUndefined
            [findPreviousColumnIndex nav targetColumnIndex, findNextColumnIndex nav targetColumnIndex];
          potentialRowIndices = filter_isNotUndefined
            [findPreviousRowIndex nav targetRowIndex, findNextRowIndex nav targetRowIndex]
      in sort_by (createCoordinatesSorter nav)
           (map (\<lambda>columnIndex. Coordinate columnIndex targetRowIndex) potentialColumnIndices
            @ map (\<lambda>rowIndex. Coordinate targetColumnIndex rowIndex) potentialRowIndices))"

section \<open>Distance\<close>

text \<open>
  The \<open>while\<close> loop of \<open>calculateDistanceBetweenIndices\<close> over its variables \<open>count\<close> and
  \<open>next\<close>. On an adjacency function with a cycle that misses \<open>second\<close> the loop does not
  return: the value \<open>None\<close>.
\<close>

partial_function (option) calculateDistanceBetweenIndices_loop ::
  "'i AdjacentIndexFinder \<Rightarrow> 'i \<Rightarrow> nat \<Rightarrow> 'i \<Rightarrow> (unit + nat) option" where
  "calculateDistanceBetweenIndices_loop findNextIndex second count nxt =
     (if nxt \<noteq> second then
        (case findNextIndex nxt of
           None \<Rightarrow> Some (Inl ())
         | Some potentialNext \<Rightarrow>
             calculateDistanceBetweenIndices_loop findNextIndex second (count + 1) potentialNext)
      else Some (Inr count))"

declare calculateDistanceBetweenIndices_loop.simps [code]

definition calculateDistanceBetweenIndices ::
  "'i \<Rightarrow> 'i \<Rightarrow> 'i AdjacentIndexFinder \<Rightarrow> (unit + nat) option" where
  "calculateDistanceBetweenIndices first second findNextIndex =
     calculateDistanceBetweenIndices_loop findNextIndex second 0 first"

text \<open>
  \<open>calculateDistance\<close> calls itself on the swapped pair when the sorter puts \<open>first\<close> after
  \<open>second\<close>; with a sorter that puts each after the other the recursion has no end and
  no value is returned (\<open>None\<close>).
\<close>

partial_function (option) calculateDistance ::
  "('c, 'r) CoordinateNavigator \<Rightarrow> ('c, 'r) Coordinate \<Rightarrow> ('c, 'r) Coordinate
   \<Rightarrow> (('c, 'r) error + nat) option" where
  "calculateDistance nav first second =
     (if createCoordinatesSorter nav first second > 0 then calculateDistance nav second first
      else if columnIndex first = columnIndex second then
        map_option
          (\<lambda>distance. Either_swap (Either_map (\<lambda>_. NonAlignedCoordinates first second) (Either_swap distance)))
          (calculateDistanceBetweenIndices (rowIndex first) (rowIndex second) (findNextRowIndex nav))
      else if rowIndex first = rowIndex second then
        map_option
          (\<lambda>distance. Either_swap (Either_map (\<lambda>_. NonAlignedCoordinates first second) (Either_swap distance)))
          (calculateDistanceBetweenIndices (columnIndex first) (columnIndex second) (findNextColumnIndex nav))
      else Some (Inl (NonAlignedCoordinates first second)))"

declare calculateDistance.simps [code]

section \<open>Well-formed axes\<close>

text \<open>
  An axis is well formed on the index sequence \<open>idxs\<close> when \<open>next\<close> steps through \<open>idxs\<close>
  from its first to its last element and has none at the last, \<open>previous\<close> does the same
  backwards, and the sorter orders the indices as the sequence does.
\<close>

fun chain :: "'i AdjacentIndexFinder \<Rightarrow> 'i list \<Rightarrow> bool" where
  "chain nxt [] = True"
| "chain nxt [x] = (nxt x = None)"
| "chain nxt (x # y # ys) = (nxt x = Some y \<and> chain nxt (y # ys))"

fun ordered_by :: "'i IndexSorter \<Rightarrow> 'i list \<Rightarrow> bool" where
  "ordered_by srt [] = True"
| "ordered_by srt (x # xs) =
     (srt x x = 0 \<and> (\<forall>y \<in> set xs. srt x y < 0 \<and> 0 < srt y x) \<and> ordered_by srt xs)"

definition axis ::
  "'i AdjacentIndexFinder \<Rightarrow> 'i AdjacentIndexFinder \<Rightarrow> 'i IndexSorter \<Rightarrow> 'i list \<Rightarrow> bool" where
  "axis prv nxt srt idxs \<longleftrightarrow> chain nxt idxs \<and> chain prv (rev idxs) \<and> ordered_by srt idxs"

definition grid ::
  "('c, 'r) CoordinateNavigator \<Rightarrow> 'c list \<Rightarrow> 'r list \<Rightarrow> bool" where
  "grid nav cols rows \<longleftrightarrow>
     axis (findPreviousColumnIndex nav) (findNextColumnIndex nav) (columnIndexSorter nav) cols
     \<and> axis (findPreviousRowIndex nav) (findNextRowIndex nav) (rowIndexSorter nav) rows"

definition on_grid :: "'c list \<Rightarrow> 'r list \<Rightarrow> ('c, 'r) Coordinate \<Rightarrow> bool" where
  "on_grid cols rows c \<longleftrightarrow> columnIndex c \<in> set cols \<and> rowIndex c \<in> set rows"

section \<open>Alignments\<close>

text \<open>
  A distance as \<open>findAlignments\<close> holds it: the count of steps, or \<open>NaN\<close> when
  \<open>calculateDistance\<close> gave its failure (\<open>getOrElse(NaN)\<close>). \<open>Number.isInteger\<close> is false
  on \<open>NaN\<close> and so is every comparison with it.
\<close>

datatype number = Integer nat | NaN

fun Number_isInteger :: "number \<Rightarrow> bool" where
  "Number_isInteger (Integer n) = True"
| "Number_isInteger NaN = False"

fun number_le :: "number \<Rightarrow> nat \<Rightarrow> bool" where
  "number_le (Integer n) m = (n \<le> m)"
| "number_le NaN m = False"

fun Either_getOrElse :: "'b \<Rightarrow> 'a + 'b \<Rightarrow> 'b" where
  "Either_getOrElse d (Inl a) = d"
| "Either_getOrElse d (Inr b) = b"

record ('c, 'r) CoordinateAlignmentCandidate =
  candidate :: "('c, 'r) Coordinate"
  alignment :: "ShipDirection option"
  distance :: number

definition findCoordinatesAlignmentDirection ::
  "('c, 'r) Coordinate \<Rightarrow> ('c, 'r) Coordinate \<Rightarrow> ShipDirection option" where
  "findCoordinatesAlignmentDirection first second =
     (if columnIndex first = columnIndex second then Some VERTICAL
      else if rowIndex first = rowIndex second then Some HORIZONTAL
      else None)"

text \<open>
  An Immutable \<open>Map\<close> built from a list of entries: a key that is already present keeps
  its place and takes the new value (\<open>AList.update\<close>), keys being compared structurally.
  While the map has at most eight entries Immutable holds them in an array and iterates
  in the order of first insertion. From the ninth entry on it holds them in a trie
  indexed by the hash codes of the keys, and iterates in the order of the trie. The
  hash code of a coordinate is decided by the class \<open>Coordinate\<close>, whose declaration is
  missing; the order in which a map of more than eight entries iterates is therefore a
  parameter, \<open>iteration\<close>: it takes the keys of the map in the order of first insertion
  and gives them in the order of iteration.
\<close>

type_synonym 'k MapIteration = "'k list \<Rightarrow> 'k list"

definition ImmutableMap :: "'k MapIteration \<Rightarrow> ('k \<times> 'v) list \<Rightarrow> ('k \<times> 'v) list" where
  "ImmutableMap iteration entries =
     (let inserted = foldl (\<lambda>m (k, v). AList.update k v m) [] entries
      in if length inserted \<le> 8 then inserted
         else List.map_filter (\<lambda>k. map_option (Pair k) (map_of inserted k))
                (iteration (map fst inserted)))"

definition mapCandidateToPotentialAlignment ::
  "('c, 'r) CoordinateNavigator \<Rightarrow> ('c, 'r) Coordinate \<Rightarrow> ('c, 'r) Coordinate
   \<Rightarrow> ('c, 'r) CoordinateAlignmentCandidate option" where
  "mapCandidateToPotentialAlignment nav cand ref =
     map_option
       (\<lambda>d. \<lparr>candidate = cand,
             alignment = findCoordinatesAlignmentDirection cand ref,
             distance = Either_getOrElse NaN (Either_map Integer d)\<rparr>)
       (calculateDistance nav cand ref)"

definition filterInvalidAlignmentCandidate ::
  "ShipSize \<Rightarrow> ('c, 'r) CoordinateAlignmentCandidate \<Rightarrow> bool" where
  "filterInvalidAlignmentCandidate maxDistance alignmentCandidate \<longleftrightarrow>
     alignment alignmentCandidate \<noteq> None
     \<and> Number_isInteger (distance alignmentCandidate)
     \<and> number_le (distance alignmentCandidate) maxDistance"

definition groupCandidatesFromDirection ::
  "('c, 'r) CoordinateNavigator \<Rightarrow> ShipDirection \<Rightarrow> ('c, 'r) CoordinateAlignmentCandidate list
   \<Rightarrow> ('c, 'r) Coordinate \<Rightarrow> ('c, 'r) CoordinateAlignment" where
  "groupCandidatesFromDirection nav dir alignmentCandidates ref =
     \<lparr>direction = dir,
      coordinates = sort_by (createCoordinatesSorter nav)
        (map candidate (filter (\<lambda>ac. alignment ac = Some dir) alignmentCandidates) @ [ref])\<rparr>"

text \<open>\<open>List.get(index)\<close>: \<open>undefined\<close> out of range.\<close>

definition List_get :: "'a list \<Rightarrow> nat \<Rightarrow> 'a option" where
  "List_get xs i = (if i < length xs then Some (xs ! i) else None)"

definition filterRedundantAlignments ::
  "('c, 'r) CoordinateAlignment \<Rightarrow> nat \<Rightarrow> ('c, 'r) CoordinateAlignment list \<Rightarrow> bool" where
  "filterRedundantAlignments al alignmentIndex alignments =
     (if alignmentIndex = 0 then True
      else case List_get alignments (alignmentIndex - 1) of
        None \<Rightarrow> True
      | Some previousAlignment \<Rightarrow>
          \<not> foldl (\<lambda>alignmentIsContained coordinate.
                     alignmentIsContained \<and> coordinate \<in> set (coordinates previousAlignment))
                  True (coordinates al))"

text \<open>
  \<open>filter\<close> with a predicate that also reads the element's index and the list being
  filtered.
\<close>

definition filter_indexed :: "('a \<Rightarrow> nat \<Rightarrow> 'a list \<Rightarrow> bool) \<Rightarrow> 'a list \<Rightarrow> 'a list" where
  "filter_indexed p xs = map snd (filter (\<lambda>(i, x). p x i xs) (enumerate 0 xs))"

text \<open>
  The candidates of one reference that \<open>findAlignments\<close> keeps: each candidate mapped to
  its potential alignment, the invalid ones filtered out. It does not return when one
  of the distance computations does not.
\<close>

definition validCandidates ::
  "('c, 'r) CoordinateNavigator \<Rightarrow> ShipSize \<Rightarrow> ('c, 'r) Coordinate \<Rightarrow> ('c, 'r) Coordinate list
   \<Rightarrow> ('c, 'r) CoordinateAlignmentCandidate list option" where
  "validCandidates nav maxDistance ref candidates =
     map_option (filter (filterInvalidAlignmentCandidate maxDistance))
       (those (map (\<lambda>cand. mapCandidateToPotentialAlignment nav cand ref) candidates))"

definition candidatesMap ::
  "('c, 'r) CoordinateNavigator \<Rightarrow> ('c, 'r) Coordinate MapIteration \<Rightarrow> ('c, 'r) Coordinate list
   \<Rightarrow> (('c, 'r) Coordinate \<times> ('c, 'r) Coordinate list) list" where
  "candidatesMap nav iteration coords =
     (let collection = sort_by (createCoordinatesSorter nav) coords
      in ImmutableMap iteration
           (map (\<lambda>index. (collection ! index, drop (index + 1) collection)) [0..<length collection]))"

text \<open>
  \<open>findAlignments\<close> builds five maps, each from the one before: \<open>candidatesMap\<close> and the
  results of \<open>filter\<close>, \<open>map\<close>, \<open>filter\<close> and \<open>map\<close>. A map made by \<open>filter\<close> or \<open>map\<close>
  receives its entries in the order in which the map it is made from iterates.
  \<open>iteration n\<close> is the order of iteration of the \<open>n\<close>-th of the five maps, counted from
  0, when that map has more than eight entries. \<open>toList\<close> lists the values of the last
  map in its order of iteration. The function does not return when a distance
  computation does not.
\<close>

definition findAlignments ::
  "('c, 'r) CoordinateNavigator \<Rightarrow> (nat \<Rightarrow> ('c, 'r) Coordinate MapIteration)
   \<Rightarrow> ('c, 'r) Coordinate list \<Rightarrow> ShipSize \<Rightarrow> ('c, 'r) CoordinateAlignment list option" where
  "findAlignments nav iteration coords maxDistance =
     do {
       valid \<leftarrow> those
         (map (\<lambda>(ref, candidates).
                 map_option (Pair ref) (validCandidates nav maxDistance ref candidates))
              (ImmutableMap (iteration 1)
                 (filter (\<lambda>(ref, candidates). length candidates > 0)
                    (candidatesMap nav (iteration 0) coords))));
       Some
         (filter_indexed filterRedundantAlignments
           (filter (\<lambda>al. length (coordinates al) > 1)
             (concat
               (map snd
                 (ImmutableMap (iteration 4)
                   (map (\<lambda>(ref, candidates).
                           (ref, [groupCandidatesFromDirection nav HORIZONTAL candidates ref,
                                  groupCandidatesFromDirection nav VERTICAL candidates ref]))
                        (ImmutableMap (iteration 3)
                           (filter (\<lambda>(ref, candidates). length candidates > 0)
                              (ImmutableMap (iteration 2) valid)))))))))
     }"

subsection \<open>Gaps of an alignment\<close>

text \<open>\<open>toOrderedSet\<close>: the values in order of first occurrence.\<close>

definition OrderedSet_add :: "'a list \<Rightarrow> 'a \<Rightarrow> 'a list" where
  "OrderedSet_add s x = (if x \<in> set s then s else s @ [x])"

definition toOrderedSet :: "'a list \<Rightarrow> 'a list" where
  "toOrderedSet xs = foldl OrderedSet_add [] xs"

text \<open>
  The \<open>while\<close> loop of \<open>findIndexGaps\<close> over \<open>next\<close> and \<open>missingIndices\<close>; it leaves
  at a boundary (\<open>break\<close>) and runs forever on a cycle that misses \<open>last\<close>.
\<close>

partial_function (option) findIndexGaps_loop ::
  "'i AdjacentIndexFinder \<Rightarrow> 'i list \<Rightarrow> 'i \<Rightarrow> 'i list \<Rightarrow> 'i \<Rightarrow> 'i list option" where
  "findIndexGaps_loop findNextIndex sortedIndices lst missingIndices nxt =
     (if nxt \<noteq> lst then
        (case findNextIndex nxt of
           None \<Rightarrow> Some missingIndices
         | Some potentialNext \<Rightarrow>
             findIndexGaps_loop findNextIndex sortedIndices lst
               (if potentialNext \<notin> set sortedIndices then missingIndices @ [potentialNext]
                else missingIndices)
               potentialNext)
      else Some missingIndices)"

declare findIndexGaps_loop.simps [code]

definition findIndexGaps :: "'i list \<Rightarrow> 'i AdjacentIndexFinder \<Rightarrow> 'i list option" where
  "findIndexGaps sortedIndices findNextIndex =
     (if sortedIndices = [] \<or> length sortedIndices \<le> 1 then Some []
      else findIndexGaps_loop findNextIndex sortedIndices (last sortedIndices) [] (hd sortedIndices))"

text \<open>
  \<open>findAlignmentGaps\<close> reads the fixed index from the first coordinate, which exists
  since more than one coordinate is present; its closing \<open>throw\<close> is never reached, the
  direction having two values only.
\<close>

definition findAlignmentGaps ::
  "('c, 'r) CoordinateNavigator \<Rightarrow> ('c, 'r) CoordinateAlignment \<Rightarrow> ('c, 'r) Coordinate list option" where
  "findAlignmentGaps nav al =
     (if length (coordinates al) \<le> 1 then Some []
      else case direction al of
        HORIZONTAL \<Rightarrow>
          map_option (map (\<lambda>columnIndex. Coordinate columnIndex (rowIndex (hd (coordinates al)))))
            (findIndexGaps
               (toOrderedSet (map columnIndex (sort_by (createCoordinatesSorter nav) (coordinates al))))
               (findNextColumnIndex nav))
      | VERTICAL \<Rightarrow>
          map_option (map (\<lambda>rowIndex. Coordinate (columnIndex (hd (coordinates al))) rowIndex))
            (findIndexGaps
               (toOrderedSet (map rowIndex (sort_by (createCoordinatesSorter nav) (coordinates al))))
               (findNextRowIndex nav)))"

section \<open>Grid traversal\<close>

text \<open>The loop of \<open>findFirstIndex\<close>; it runs forever when \<open>previous\<close> never has none.\<close>

partial_function (option) findFirstIndex_loop ::
  "'i AdjacentIndexFinder \<Rightarrow> 'i \<Rightarrow> 'i option \<Rightarrow> 'i option" where
  "findFirstIndex_loop findPreviousIndex previousIndex potentialPreviousIndex =
     (case potentialPreviousIndex of
        None \<Rightarrow> Some previousIndex
      | Some p \<Rightarrow> findFirstIndex_loop findPreviousIndex p (findPreviousIndex p))"

declare findFirstIndex_loop.simps [code]

definition findFirstIndex :: "'i \<Rightarrow> 'i AdjacentIndexFinder \<Rightarrow> 'i option" where
  "findFirstIndex ref findPreviousIndex = findFirstIndex_loop findPreviousIndex ref (Some ref)"

definition getOrigin ::
  "('c, 'r) Coordinate \<Rightarrow> 'c AdjacentIndexFinder \<Rightarrow> 'r AdjacentIndexFinder
   \<Rightarrow> ('c, 'r) Coordinate option" where
  "getOrigin ref findPreviousColumn findPreviousRow =
     do {
       originColumnIndex \<leftarrow> findFirstIndex (columnIndex ref) findPreviousColumn;
       originRowIndex \<leftarrow> findFirstIndex (rowIndex ref) findPreviousRow;
       Some (Coordinate originColumnIndex originRowIndex)
     }"

text \<open>
  \<open>getGridOrigin\<close> keeps the origin it computed in \<open>cachedOrigin\<close>; the navigator's other
  fields never change, so every call gives the value computed here.
\<close>

definition getGridOrigin :: "('c, 'r) CoordinateNavigator \<Rightarrow> ('c, 'r) Coordinate option" where
  "getGridOrigin nav = getOrigin (reference nav) (findPreviousColumnIndex nav) (findPreviousRowIndex nav)"

text \<open>\<open>range(0, stepSize).reduce\<close>: one application of \<open>getNextIndex\<close> per element of the range.\<close>

definition findNextIndexByStep :: "'i AdjacentIndexFinder \<Rightarrow> 'i \<Rightarrow> nat \<Rightarrow> 'i option" where
  "findNextIndexByStep getNextIndex initialValue stepSize =
     foldl (\<lambda>previousValue _. case previousValue of None \<Rightarrow> None | Some p \<Rightarrow> getNextIndex p)
       (Some initialValue) [0..<stepSize]"

text \<open>The \<open>while (true)\<close> loop of \<open>createIndices\<close>; it leaves when \<open>getNextIndex\<close> has none.\<close>

partial_function (option) createIndices_loop ::
  "'i AdjacentIndexFinder \<Rightarrow> 'i list \<Rightarrow> 'i \<Rightarrow> 'i list option" where
  "createIndices_loop getNextIndex indices previousColumnIndex =
     (case getNextIndex previousColumnIndex of
        None \<Rightarrow> Some indices
      | Some nextColumnIndex \<Rightarrow>
          createIndices_loop getNextIndex (indices @ [nextColumnIndex]) nextColumnIndex)"

declare createIndices_loop.simps [code]

definition createIndices :: "'i \<Rightarrow> 'i AdjacentIndexFinder \<Rightarrow> 'i list option" where
  "createIndices originIndex getNextIndex = createIndices_loop getNextIndex [originIndex] originIndex"

text \<open>\<open>List.keyOf(value)\<close>: the first position of the value, \<open>undefined\<close> when it is absent.\<close>

fun keyOf :: "'a list \<Rightarrow> 'a \<Rightarrow> nat option" where
  "keyOf [] v = None"
| "keyOf (x # xs) v = (if x = v then Some 0 else map_option Suc (keyOf xs v))"

text \<open>
  \<open>LoopableIndices\<close>: the constructor asserts that the initial index is among the
  indices; \<open>getNextIndex\<close> returns an index and moves the cursor \<open>nextIndexIndex\<close>. The
  assertion makes the list non-empty, so the read at position 0 after wrapping is in
  range.
\<close>

record 'i LoopableIndices =
  indices :: "'i list"
  initialIndex :: 'i
  nextIndexIndex :: "nat option"

definition new_LoopableIndices :: "'i list \<Rightarrow> 'i \<Rightarrow> ('c, 'r) error + 'i LoopableIndices" where
  "new_LoopableIndices idxs initial =
     (if initial \<in> set idxs
      then Inr \<lparr>indices = idxs, initialIndex = initial, nextIndexIndex = None\<rparr>
      else Inl AssertionError)"

definition getNextIndex :: "'i LoopableIndices \<Rightarrow> 'i \<times> 'i LoopableIndices" where
  "getNextIndex this =
     (case nextIndexIndex this of
        None \<Rightarrow>
          (initialIndex this, this\<lparr>nextIndexIndex := keyOf (indices this) (initialIndex this)\<rparr>)
      | Some current \<Rightarrow>
          (let newNextIndexIndex = (if \<not> current + 1 < length (indices this) then 0 else current + 1)
           in (indices this ! newNextIndexIndex, this\<lparr>nextIndexIndex := Some newNextIndexIndex\<rparr>)))"

text \<open>
  \<open>columnIndices.map\<close> in \<open>traverseGridDiagonally\<close>: each column takes the next row of the
  cursor, the cursor passing from one column to the next.
\<close>

fun traverseStartingCoordinates ::
  "'c list \<Rightarrow> 'r LoopableIndices \<Rightarrow> ('c, 'r) Coordinate list" where
  "traverseStartingCoordinates [] loopableStartingRows = []"
| "traverseStartingCoordinates (startingColumnIndex # columnIndices) loopableStartingRows =
     (let (row, loopableStartingRows') = getNextIndex loopableStartingRows
      in Coordinate startingColumnIndex row
         # traverseStartingCoordinates columnIndices loopableStartingRows')"

definition traverseGridDiagonally ::
  "'c list \<Rightarrow> ShipSize \<Rightarrow> ('c, 'r) Coordinate list \<Rightarrow> ('c, 'r) Coordinate
   \<Rightarrow> 'r AdjacentIndexFinder \<Rightarrow> (('c, 'r) error + ('c, 'r) Coordinate list) option" where
  "traverseGridDiagonally columnIndices minShipSize potentialStartingCoordinates startingCoordinate
     findNextRow =
     (if startingCoordinate \<notin> set potentialStartingCoordinates then Some (Inl AssertionError)
      else case new_LoopableIndices (map rowIndex potentialStartingCoordinates)
                  (rowIndex startingCoordinate) of
        Inl e \<Rightarrow> Some (Inl e)
      | Inr loopableStartingRows \<Rightarrow>
          map_option (\<lambda>lists. Inr (concat lists))
            (those
              (map (\<lambda>traverseFirstCoordinate.
                      map_option (map (Coordinate (columnIndex traverseFirstCoordinate)))
                        (createIndices (rowIndex traverseFirstCoordinate)
                           (\<lambda>initialValue. findNextIndexByStep findNextRow initialValue minShipSize)))
                   (traverseStartingCoordinates columnIndices loopableStartingRows))))"

definition findStartingCoordinates ::
  "('c, 'r) CoordinateNavigator \<Rightarrow> ShipSize \<Rightarrow> ('c, 'r) Coordinate list option" where
  "findStartingCoordinates nav minShipSize =
     do {
       origin \<leftarrow> getGridOrigin nav;
       Some (sort_by (createCoordinatesSorter nav)
               (map (\<lambda>newRowIndex. Coordinate (columnIndex origin) newRowIndex)
                  (filter_isNotUndefined
                     (map (\<lambda>distanceToOrigin.
                             findNextIndexByStep (findNextRowIndex nav) (rowIndex origin) distanceToOrigin)
                          [0..<minShipSize]))))
     }"

text \<open>A list mapped by a function that may throw or not return: the first failure is the result.\<close>

fun map_results :: "('a \<Rightarrow> ('e + 'b) option) \<Rightarrow> 'a list \<Rightarrow> ('e + 'b list) option" where
  "map_results f [] = Some (Inr [])"
| "map_results f (x # xs) =
     (case f x of
        None \<Rightarrow> None
      | Some (Inl e) \<Rightarrow> Some (Inl e)
      | Some (Inr y) \<Rightarrow>
          (case map_results f xs of
             None \<Rightarrow> None
           | Some (Inl e) \<Rightarrow> Some (Inl e)
           | Some (Inr ys) \<Rightarrow> Some (Inr (y # ys))))"

definition getReversedRowIndex :: "'r list \<Rightarrow> 'r \<Rightarrow> ('c, 'r) error + 'r" where
  "getReversedRowIndex rowIndices r =
     (case keyOf rowIndices r of
        None \<Rightarrow> Inl AssertionError
      | Some index \<Rightarrow> Inr (rev rowIndices ! index))"

definition mirror ::
  "('c, 'r) CoordinateNavigator \<Rightarrow> ('c, 'r) Coordinate list
   \<Rightarrow> (('c, 'r) error + ('c, 'r) Coordinate list) option" where
  "mirror nav coords =
     do {
       origin \<leftarrow> getGridOrigin nav;
       rowIndices \<leftarrow> createIndices (rowIndex origin) (findNextRowIndex nav);
       map_results
         (\<lambda>c. Some (Either_map (Coordinate (columnIndex c)) (getReversedRowIndex rowIndices (rowIndex c))))
         coords
     }"

definition traverseGridDiagonallyInDirection ::
  "('c, 'r) CoordinateNavigator \<Rightarrow> ShipSize
   \<Rightarrow> (('c, 'r) error + ('c, 'r) Coordinate list list) option" where
  "traverseGridDiagonallyInDirection nav minShipSize =
     do {
       origin \<leftarrow> getGridOrigin nav;
       columnIndices \<leftarrow> createIndices (columnIndex origin) (findNextColumnIndex nav);
       startingCoordinates \<leftarrow> findStartingCoordinates nav minShipSize;
       map_results
         (\<lambda>startingCoordinate.
            traverseGridDiagonally columnIndices minShipSize startingCoordinates startingCoordinate
              (findNextRowIndex nav))
         startingCoordinates
     }"

definition traverseGrid ::
  "('c, 'r) CoordinateNavigator \<Rightarrow> ShipSize
   \<Rightarrow> (('c, 'r) error + ('c, 'r) Coordinate list list) option" where
  "traverseGrid nav minShipSize =
     do {
       lists \<leftarrow> traverseGridDiagonallyInDirection nav minShipSize;
       case lists of
         Inl e \<Rightarrow> Some (Inl e)
       | Inr ls \<Rightarrow>
           map_option (Either_map (\<lambda>pairs. filter (\<lambda>l. length l > 0) (concat pairs)))
             (map_results (\<lambda>l. map_option (Either_map (\<lambda>m. [l, m])) (mirror nav l)) ls)
     }"

text \<open>
  A contiguous run of \<open>n\<close> indices from \<open>x\<close> along an axis: \<open>x\<close> and its \<open>n - 1\<close> successors,
  when the axis has them.
\<close>

fun run_from :: "'i AdjacentIndexFinder \<Rightarrow> 'i \<Rightarrow> nat \<Rightarrow> 'i list option" where
  "run_from nxt x 0 = Some []"
| "run_from nxt x (Suc 0) = Some [x]"
| "run_from nxt x (Suc (Suc n)) =
     (case nxt x of None \<Rightarrow> None | Some y \<Rightarrow> map_option ((#) x) (run_from nxt y (Suc n)))"

text \<open>
  The cells of the contiguous run of \<open>n\<close> cells from the coordinate \<open>start\<close> in a
  direction: along the columns in the row of \<open>start\<close> for HORIZONTAL, along the rows in
  its column for VERTICAL.
\<close>

definition run_cells ::
  "('c, 'r) CoordinateNavigator \<Rightarrow> ShipDirection \<Rightarrow> ('c, 'r) Coordinate \<Rightarrow> nat
   \<Rightarrow> ('c, 'r) Coordinate list option" where
  "run_cells nav dir start n =
     (case dir of
        HORIZONTAL \<Rightarrow>
          map_option (map (\<lambda>x. Coordinate x (rowIndex start)))
            (run_from (findNextColumnIndex nav) (columnIndex start) n)
      | VERTICAL \<Rightarrow>
          map_option (map (\<lambda>y. Coordinate (columnIndex start) y))
            (run_from (findNextRowIndex nav) (rowIndex start) n))"

section \<open>The example grid\<close>

text \<open>
  The grid of the specification's examples: lettered columns A to E, numeric rows 1 to
  5, adjacency one step each way with A, 1 and E, 5 as the boundaries; the sorters
  compare letters alphabetically and rows numerically.
\<close>

datatype Letter = ColA | ColB | ColC | ColD | ColE

fun previousLetter :: "Letter AdjacentIndexFinder" where
  "previousLetter ColA = None"
| "previousLetter ColB = Some ColA"
| "previousLetter ColC = Some ColB"
| "previousLetter ColD = Some ColC"
| "previousLetter ColE = Some ColD"

fun nextLetter :: "Letter AdjacentIndexFinder" where
  "nextLetter ColA = Some ColB"
| "nextLetter ColB = Some ColC"
| "nextLetter ColC = Some ColD"
| "nextLetter ColD = Some ColE"
| "nextLetter ColE = None"

fun letterRank :: "Letter \<Rightarrow> int" where
  "letterRank ColA = 1"
| "letterRank ColB = 2"
| "letterRank ColC = 3"
| "letterRank ColD = 4"
| "letterRank ColE = 5"

definition exampleGrid :: "(Letter, nat) CoordinateNavigator" where
  "exampleGrid =
     \<lparr>findPreviousColumnIndex = previousLetter,
      findNextColumnIndex = nextLetter,
      columnIndexSorter = (\<lambda>l r. letterRank l - letterRank r),
      findPreviousRowIndex = (\<lambda>i. if 1 < i \<and> i \<le> 5 then Some (i - 1) else None),
      findNextRowIndex = (\<lambda>i. if 1 \<le> i \<and> i < 5 then Some (i + 1) else None),
      rowIndexSorter = (\<lambda>l r. int l - int r),
      reference = Coordinate ColC 3\<rparr>"

definition exampleColumns :: "Letter list" where
  "exampleColumns = [ColA, ColB, ColC, ColD, ColE]"

definition exampleRows :: "nat list" where
  "exampleRows = [1, 2, 3, 4, 5]"

text \<open>
  An order of iteration for the maps of more than eight entries in the examples: the
  reverse of the order of insertion, at each of the five maps of \<open>findAlignments\<close>.
\<close>

definition exampleIteration :: "nat \<Rightarrow> (Letter, nat) Coordinate MapIteration" where
  "exampleIteration n keys = rev keys"

section \<open>Properties of the sorter and of well-formed axes\<close>

lemma chain_nth: "chain nxt xs \<Longrightarrow> Suc i < length xs \<Longrightarrow> nxt (xs ! i) = Some (xs ! Suc i)"
proof (induction nxt xs arbitrary: i rule: chain.induct)
  case (3 nxt x y ys)
  then show ?case by (cases i) auto
qed auto

lemma chain_last: "chain nxt xs \<Longrightarrow> xs \<noteq> [] \<Longrightarrow> nxt (last xs) = None"
  by (induction nxt xs rule: chain.induct) auto

lemma ordered_by_nth:
  "ordered_by srt xs \<Longrightarrow> i < j \<Longrightarrow> j < length xs \<Longrightarrow> srt (xs ! i) (xs ! j) < 0 \<and> 0 < srt (xs ! j) (xs ! i)"
proof (induction xs arbitrary: i j)
  case (Cons x xs)
  then show ?case by (cases i; cases j) auto
qed simp

lemma ordered_by_refl: "ordered_by srt xs \<Longrightarrow> x \<in> set xs \<Longrightarrow> srt x x = 0"
  by (induction xs) auto

lemma ordered_by_distinct: "ordered_by srt xs \<Longrightarrow> distinct xs"
  by (induction xs) auto

lemma distance_loop_chain:
  "chain nxt xs \<Longrightarrow> distinct xs \<Longrightarrow> i \<le> j \<Longrightarrow> j < length xs \<Longrightarrow>
   calculateDistanceBetweenIndices_loop nxt (xs ! j) count (xs ! i) = Some (Inr (count + (j - i)))"
proof (induction "j - i" arbitrary: i count)
  case 0
  then show ?case by (simp add: calculateDistanceBetweenIndices_loop.simps)
next
  case (Suc d)
  then have lt: "i < j" and ne: "xs ! i \<noteq> xs ! j" by (auto simp: nth_eq_iff_index_eq)
  have "nxt (xs ! i) = Some (xs ! Suc i)" using Suc.prems lt by (intro chain_nth) auto
  moreover have "calculateDistanceBetweenIndices_loop nxt (xs ! j) (count + 1) (xs ! Suc i) = Some (Inr (count + 1 + (j - Suc i)))"
    using Suc lt by (intro Suc.hyps(1)) auto
  ultimately show ?case using ne lt
    by (subst calculateDistanceBetweenIndices_loop.simps) simp
qed

lemma set_insort_by [simp]: "set (insort_by cmp x xs) = insert x (set xs)"
  by (induction xs) auto

lemma length_insort_by [simp]: "length (insort_by cmp x xs) = Suc (length xs)"
  by (induction xs) auto

lemma distinct_insort_by [simp]: "distinct (insort_by cmp x xs) \<longleftrightarrow> x \<notin> set xs \<and> distinct xs"
  by (induction xs) auto

lemma sort_by_Nil [simp]: "sort_by cmp [] = []"
  by (simp add: sort_by_def)

lemma sort_by_Cons [simp]: "sort_by cmp (x # xs) = insort_by cmp x (sort_by cmp xs)"
  by (simp add: sort_by_def)

lemma set_sort_by [simp]: "set (sort_by cmp xs) = set xs"
  by (induction xs) auto

lemma length_sort_by [simp]: "length (sort_by cmp xs) = length xs"
  by (induction xs) auto

lemma distinct_sort_by [simp]: "distinct (sort_by cmp xs) \<longleftrightarrow> distinct xs"
  by (induction xs) auto

lemma chain_next_on_axis:
  assumes "chain nxt xs" "i < length xs"
  shows "nxt (xs ! i) = (if Suc i < length xs then Some (xs ! Suc i) else None)"
proof (cases "Suc i < length xs")
  case True
  then show ?thesis using chain_nth [OF assms(1) True] by simp
next
  case False
  then have "i = length xs - 1" "xs \<noteq> []" using assms(2) by auto
  then have "xs ! i = last xs" "xs \<noteq> []" by (simp_all add: last_conv_nth)
  then show ?thesis using chain_last [OF assms(1)] False by simp
qed

lemma chain_previous_on_axis:
  assumes "chain prv (rev xs)" "i < length xs"
  shows "prv (xs ! i) = (if 0 < i then Some (xs ! (i - 1)) else None)"
proof -
  let ?k = "length xs - 1 - i"
  have k: "?k < length (rev xs)" using assms(2) by simp
  have at: "rev xs ! ?k = xs ! i" using assms(2) by (simp add: rev_nth)
  have "prv (rev xs ! ?k) = (if Suc ?k < length (rev xs) then Some (rev xs ! Suc ?k) else None)"
    by (rule chain_next_on_axis [OF assms(1) k])
  moreover have "rev xs ! Suc ?k = xs ! (i - 1)" if "0 < i"
    using that assms(2) by (simp add: rev_nth Suc_diff_Suc)
  moreover have "Suc ?k < length (rev xs) \<longleftrightarrow> 0 < i" using assms(2) by auto
  ultimately show ?thesis using at by auto
qed

lemma filter_isNotUndefined_pair:
  "filter_isNotUndefined [a, b] = (case a of None \<Rightarrow> [] | Some x \<Rightarrow> [x]) @ (case b of None \<Rightarrow> [] | Some y \<Rightarrow> [y])"
  by (cases a; cases b) simp_all



section \<open>Distance on a well-formed grid\<close>

lemma distance_indices_chain:
  "chain nxt xs \<Longrightarrow> distinct xs \<Longrightarrow> i \<le> j \<Longrightarrow> j < length xs \<Longrightarrow>
   calculateDistanceBetweenIndices (xs ! i) (xs ! j) nxt = Some (Inr (j - i))"
  using distance_loop_chain [of nxt xs i j 0] by (simp add: calculateDistanceBetweenIndices_def)

lemma sorter_on_grid:
  assumes "grid nav cols rows" "ia < length cols" "ib < length cols" "ja < length rows" "jb < length rows"
  shows "0 < createCoordinatesSorter nav (Coordinate (cols ! ia) (rows ! ja)) (Coordinate (cols ! ib) (rows ! jb))
         \<longleftrightarrow> jb < ja \<or> (ja = jb \<and> ib < ia)"
proof -
  have oc: "ordered_by (columnIndexSorter nav) cols" and orr: "ordered_by (rowIndexSorter nav) rows"
    using assms(1) by (auto simp: grid_def axis_def)
  consider "ja < jb" | "jb < ja" | "ja = jb" "ia < ib" | "ja = jb" "ib < ia" | "ja = jb" "ia = ib"
    by linarith
  then show ?thesis
  proof cases
    case 1
    then show ?thesis using ordered_by_nth [OF orr 1 assms(5)]
      by (simp add: createCoordinatesSorter_def Let_def)
  next
    case 2
    then show ?thesis using ordered_by_nth [OF orr 2 assms(4)]
      by (simp add: createCoordinatesSorter_def Let_def)
  next
    case 3
    then show ?thesis using ordered_by_nth [OF oc 3(2) assms(3)] ordered_by_refl [OF orr, of "rows ! jb"] assms
      by (simp add: createCoordinatesSorter_def Let_def)
  next
    case 4
    then show ?thesis using ordered_by_nth [OF oc 4(2) assms(2)] ordered_by_refl [OF orr, of "rows ! jb"] assms
      by (simp add: createCoordinatesSorter_def Let_def)
  next
    case 5
    then show ?thesis
      using ordered_by_refl [OF oc, of "cols ! ib"] ordered_by_refl [OF orr, of "rows ! jb"] assms
      by (simp add: createCoordinatesSorter_def Let_def)
  qed
qed

lemma Either_relabel [simp]:
  "Either_swap (Either_map f (Either_swap (Inr d))) = Inr d"
  "Either_swap (Either_map f (Either_swap (Inl u))) = Inl (f u)"
  by simp_all

lemma calculateDistance_sorted_on_grid:
  assumes g: "grid nav cols rows"
    and b: "ia < length cols" "ib < length cols" "ja < length rows" "jb < length rows"
    and le: "\<not> (jb < ja \<or> (ja = jb \<and> ib < ia))"
  shows "calculateDistance nav (Coordinate (cols ! ia) (rows ! ja)) (Coordinate (cols ! ib) (rows ! jb)) =
         Some (if ia = ib then Inr (jb - ja) else if ja = jb then Inr (ib - ia)
               else Inl (NonAlignedCoordinates (Coordinate (cols ! ia) (rows ! ja)) (Coordinate (cols ! ib) (rows ! jb))))"
proof -
  have cc: "chain (findNextColumnIndex nav) cols" and cr: "chain (findNextRowIndex nav) rows"
    and dc: "distinct cols" and dr: "distinct rows"
    using g by (auto simp: grid_def axis_def ordered_by_distinct)
  have s: "\<not> 0 < createCoordinatesSorter nav (Coordinate (cols ! ia) (rows ! ja)) (Coordinate (cols ! ib) (rows ! jb))"
    using sorter_on_grid [OF g b] le by simp
  have eqc: "cols ! ia = cols ! ib \<longleftrightarrow> ia = ib" using dc b by (simp add: nth_eq_iff_index_eq)
  have eqr: "rows ! ja = rows ! jb \<longleftrightarrow> ja = jb" using dr b by (simp add: nth_eq_iff_index_eq)
  show ?thesis
  proof (cases "ia = ib")
    case True
    then have "ja \<le> jb" using le by auto
    then show ?thesis using True s distance_indices_chain [OF cr dr _ b(4), of ja]
      by (subst calculateDistance.simps) simp
  next
    case False
    show ?thesis
    proof (cases "ja = jb")
      case True
      then have "ia \<le> ib" using le by auto
      then show ?thesis using True False s eqc distance_indices_chain [OF cc dc _ b(2), of ia]
        by (subst calculateDistance.simps) simp
    next
      case F2: False
      then show ?thesis using False s eqc eqr
        by (subst calculateDistance.simps) simp
    qed
  qed
qed

lemma calculateDistance_on_grid:
  assumes g: "grid nav cols rows"
    and b: "ia < length cols" "ib < length cols" "ja < length rows" "jb < length rows"
  shows "calculateDistance nav (Coordinate (cols ! ia) (rows ! ja)) (Coordinate (cols ! ib) (rows ! jb)) =
         Some (if ia = ib then Inr (if ja \<le> jb then jb - ja else ja - jb)
               else if ja = jb then Inr (if ia \<le> ib then ib - ia else ia - ib)
               else Inl (if jb < ja
                         then NonAlignedCoordinates (Coordinate (cols ! ib) (rows ! jb)) (Coordinate (cols ! ia) (rows ! ja))
                         else NonAlignedCoordinates (Coordinate (cols ! ia) (rows ! ja)) (Coordinate (cols ! ib) (rows ! jb))))"
proof (cases "jb < ja \<or> (ja = jb \<and> ib < ia)")
  case True
  then have s: "0 < createCoordinatesSorter nav (Coordinate (cols ! ia) (rows ! ja)) (Coordinate (cols ! ib) (rows ! jb))"
    using sorter_on_grid [OF g b] by simp
  have le: "\<not> (ja < jb \<or> (jb = ja \<and> ia < ib))" using True by auto
  have "calculateDistance nav (Coordinate (cols ! ia) (rows ! ja)) (Coordinate (cols ! ib) (rows ! jb)) =
        calculateDistance nav (Coordinate (cols ! ib) (rows ! jb)) (Coordinate (cols ! ia) (rows ! ja))"
    using s by (subst calculateDistance.simps) simp
  then show ?thesis
    using calculateDistance_sorted_on_grid [OF g b(2) b(1) b(4) b(3) le] True by auto
next
  case False
  then show ?thesis using calculateDistance_sorted_on_grid [OF g b False] by auto
qed


text \<open>
  C2. On a well-formed grid, for coordinates \<open>a\<close> and \<open>b\<close> of the grid that share a column
  or share a row, \<open>calculateDistance a b\<close> and \<open>calculateDistance b a\<close> both succeed with
  the same value, and \<open>calculateDistance a a\<close> succeeds with 0.
\<close>

theorem calculateDistance_symmetric:
  assumes "grid nav cols rows" "on_grid cols rows a" "on_grid cols rows b"
    and "columnIndex a = columnIndex b \<or> rowIndex a = rowIndex b"
  shows "(\<exists>d. calculateDistance nav a b = Some (Inr d) \<and> calculateDistance nav b a = Some (Inr d))
         \<and> calculateDistance nav a a = Some (Inr 0)"
proof -
  obtain ia ja where a: "a = Coordinate (cols ! ia) (rows ! ja)" "ia < length cols" "ja < length rows"
    using assms(2) by (cases a) (auto simp: on_grid_def in_set_conv_nth)
  obtain ib jb where b: "b = Coordinate (cols ! ib) (rows ! jb)" "ib < length cols" "jb < length rows"
    using assms(3) by (cases b) (auto simp: on_grid_def in_set_conv_nth)
  have dc: "distinct cols" and dr: "distinct rows"
    using assms(1) by (auto simp: grid_def axis_def ordered_by_distinct)
  have al: "ia = ib \<or> ja = jb"
    using assms(4) a b dc dr by (auto simp: nth_eq_iff_index_eq)
  have ab: "calculateDistance nav a b = Some (Inr (if ia = ib then (if ja \<le> jb then jb - ja else ja - jb) else (if ia \<le> ib then ib - ia else ia - ib)))"
    unfolding a b using al
    by (subst calculateDistance_on_grid [OF assms(1) a(2) b(2) a(3) b(3)]) auto
  have ba: "calculateDistance nav b a = Some (Inr (if ia = ib then (if ja \<le> jb then jb - ja else ja - jb) else (if ia \<le> ib then ib - ia else ia - ib)))"
    unfolding a b using al
    by (subst calculateDistance_on_grid [OF assms(1) b(2) a(2) b(3) a(3)]) auto
  have aa: "calculateDistance nav a a = Some (Inr 0)"
    unfolding a by (subst calculateDistance_on_grid [OF assms(1) a(2) a(2) a(3) a(3)]) auto
  show ?thesis using ab ba aa by simp
qed


lemma exampleGrid_grid: "grid exampleGrid exampleColumns exampleRows"
  by code_simp

theorem calculateDistance_symmetric_witness:
  "grid exampleGrid exampleColumns exampleRows
   \<and> on_grid exampleColumns exampleRows (Coordinate ColA 1)
   \<and> on_grid exampleColumns exampleRows (Coordinate ColA 4)
   \<and> (\<exists>d. calculateDistance exampleGrid (Coordinate ColA 1) (Coordinate ColA 4) = Some (Inr d)
          \<and> calculateDistance exampleGrid (Coordinate ColA 4) (Coordinate ColA 1) = Some (Inr d))
   \<and> calculateDistance exampleGrid (Coordinate ColA 1) (Coordinate ColA 1) = Some (Inr 0)"
proof -
  have a: "on_grid exampleColumns exampleRows (Coordinate ColA 1)"
    by (simp add: on_grid_def exampleColumns_def exampleRows_def)
  have b: "on_grid exampleColumns exampleRows (Coordinate ColA 4)"
    by (simp add: on_grid_def exampleColumns_def exampleRows_def)
  show ?thesis
    using calculateDistance_symmetric [OF exampleGrid_grid a b] a b exampleGrid_grid by simp
qed

text \<open>
  C3. For coordinates \<open>a\<close> and \<open>b\<close> that share neither the column index nor the row index,
  \<open>calculateDistance\<close> returns the failure value \<open>NonAlignedCoordinates\<close> on the failure
  arm, in both argument orders, provided the coordinate sorter does not put each of the
  two after the other (then the self-call on the swapped pair would never return). The
  failure names the pair in the order the sorter gives it.
\<close>

theorem calculateDistance_non_aligned:
  assumes "columnIndex a \<noteq> columnIndex b" "rowIndex a \<noteq> rowIndex b"
    and "\<not> (0 < createCoordinatesSorter nav a b \<and> 0 < createCoordinatesSorter nav b a)"
  shows "calculateDistance nav a b =
           Some (Inl (if 0 < createCoordinatesSorter nav a b then NonAlignedCoordinates b a else NonAlignedCoordinates a b))
         \<and> calculateDistance nav b a =
           Some (Inl (if 0 < createCoordinatesSorter nav b a then NonAlignedCoordinates a b else NonAlignedCoordinates b a))"
proof -
  have direct: "calculateDistance nav x y = Some (Inl (NonAlignedCoordinates x y))"
    if "\<not> 0 < createCoordinatesSorter nav x y" "columnIndex x \<noteq> columnIndex y" "rowIndex x \<noteq> rowIndex y"
    for x y :: "('a, 'b) Coordinate"
    using that by (subst calculateDistance.simps) simp
  have swap: "calculateDistance nav x y = calculateDistance nav y x"
    if "0 < createCoordinatesSorter nav x y" for x y :: "('a, 'b) Coordinate"
    using that by (subst calculateDistance.simps) simp
  have ab: "calculateDistance nav a b =
           Some (Inl (if 0 < createCoordinatesSorter nav a b then NonAlignedCoordinates b a else NonAlignedCoordinates a b))"
  proof (cases "0 < createCoordinatesSorter nav a b")
    case True
    then have "\<not> 0 < createCoordinatesSorter nav b a" using assms(3) by simp
    then show ?thesis using True swap [OF True] direct [of b a] assms(1,2) by simp
  next
    case False
    then show ?thesis using direct [of a b] assms(1,2) by simp
  qed
  have ba: "calculateDistance nav b a =
           Some (Inl (if 0 < createCoordinatesSorter nav b a then NonAlignedCoordinates a b else NonAlignedCoordinates b a))"
  proof (cases "0 < createCoordinatesSorter nav b a")
    case True
    then have "\<not> 0 < createCoordinatesSorter nav a b" using assms(3) by simp
    then show ?thesis using True swap [OF True] direct [of a b] assms(1,2) by simp
  next
    case False
    then show ?thesis using direct [of b a] assms(1,2) by simp
  qed
  show ?thesis using ab ba by simp
qed

theorem calculateDistance_non_aligned_witness:
  "columnIndex (Coordinate ColA (4::nat)) \<noteq> columnIndex (Coordinate ColB (1::nat))
   \<and> rowIndex (Coordinate ColA (4::nat)) \<noteq> rowIndex (Coordinate ColB (1::nat))
   \<and> \<not> (0 < createCoordinatesSorter exampleGrid (Coordinate ColA 4) (Coordinate ColB 1)
          \<and> 0 < createCoordinatesSorter exampleGrid (Coordinate ColB 1) (Coordinate ColA 4))
   \<and> calculateDistance exampleGrid (Coordinate ColA 4) (Coordinate ColB 1)
       = Some (Inl (NonAlignedCoordinates (Coordinate ColB 1) (Coordinate ColA 4)))
   \<and> calculateDistance exampleGrid (Coordinate ColB 1) (Coordinate ColA 4)
       = Some (Inl (NonAlignedCoordinates (Coordinate ColB 1) (Coordinate ColA 4)))"
proof -
  have s1: "0 < createCoordinatesSorter exampleGrid (Coordinate ColA 4) (Coordinate ColB 1)"
    by (simp add: createCoordinatesSorter_def exampleGrid_def)
  have s2: "\<not> 0 < createCoordinatesSorter exampleGrid (Coordinate ColB 1) (Coordinate ColA 4)"
    by (simp add: createCoordinatesSorter_def exampleGrid_def)
  show ?thesis
    using calculateDistance_non_aligned [of "Coordinate ColA (4::nat)" "Coordinate ColB (1::nat)" exampleGrid] s1 s2
    by simp
qed

section \<open>Surrounding coordinates\<close>

text \<open>
  C8. On a well-formed grid, for every target coordinate of the grid,
  \<open>getSurroundingCoordinates\<close> returns at most 4 coordinates, pairwise distinct, each at
  distance 1 from the target (one adjacency step on one axis, the other index
  unchanged), and fewer than 4 exactly when one of the four adjacency lookups on the
  target returns none.
\<close>

theorem getSurroundingCoordinates_adjacent:
  assumes g: "grid nav cols rows" and t: "on_grid cols rows target"
  shows "length (getSurroundingCoordinates nav target) \<le> 4
    \<and> distinct (getSurroundingCoordinates nav target)
    \<and> (\<forall>c \<in> set (getSurroundingCoordinates nav target).
          calculateDistance nav target c = Some (Inr 1)
          \<and> (rowIndex c = rowIndex target
               \<and> (findPreviousColumnIndex nav (columnIndex target) = Some (columnIndex c)
                  \<or> findNextColumnIndex nav (columnIndex target) = Some (columnIndex c))
             \<or> columnIndex c = columnIndex target
               \<and> (findPreviousRowIndex nav (rowIndex target) = Some (rowIndex c)
                  \<or> findNextRowIndex nav (rowIndex target) = Some (rowIndex c))))
    \<and> (length (getSurroundingCoordinates nav target) < 4 \<longleftrightarrow>
          findPreviousColumnIndex nav (columnIndex target) = None
          \<or> findNextColumnIndex nav (columnIndex target) = None
          \<or> findPreviousRowIndex nav (rowIndex target) = None
          \<or> findNextRowIndex nav (rowIndex target) = None)"
proof -
  obtain i j where tij: "target = Coordinate (cols ! i) (rows ! j)" "i < length cols" "j < length rows"
    using t by (cases target) (auto simp: on_grid_def in_set_conv_nth)
  have dc: "distinct cols" and dr: "distinct rows"
    using g by (auto simp: grid_def axis_def ordered_by_distinct)
  have pc: "findPreviousColumnIndex nav (cols ! i) = (if 0 < i then Some (cols ! (i - 1)) else None)"
    using g tij(2) by (intro chain_previous_on_axis) (auto simp: grid_def axis_def)
  have nc: "findNextColumnIndex nav (cols ! i) = (if Suc i < length cols then Some (cols ! Suc i) else None)"
    using g tij(2) by (intro chain_next_on_axis) (auto simp: grid_def axis_def)
  have pr: "findPreviousRowIndex nav (rows ! j) = (if 0 < j then Some (rows ! (j - 1)) else None)"
    using g tij(3) by (intro chain_previous_on_axis) (auto simp: grid_def axis_def)
  have nr: "findNextRowIndex nav (rows ! j) = (if Suc j < length rows then Some (rows ! Suc j) else None)"
    using g tij(3) by (intro chain_next_on_axis) (auto simp: grid_def axis_def)
  let ?raw = "(if 0 < i then [Coordinate (cols ! (i - 1)) (rows ! j)] else [])
      @ (if Suc i < length cols then [Coordinate (cols ! Suc i) (rows ! j)] else [])
      @ (if 0 < j then [Coordinate (cols ! i) (rows ! (j - 1))] else [])
      @ (if Suc j < length rows then [Coordinate (cols ! i) (rows ! Suc j)] else [])"
  have gsc: "getSurroundingCoordinates nav target = sort_by (createCoordinatesSorter nav) ?raw"
    unfolding getSurroundingCoordinates_def Let_def filter_isNotUndefined_pair tij(1)
    by (simp add: pc nc pr nr)
  have len: "length (getSurroundingCoordinates nav target) \<le> 4" unfolding gsc by simp
  have dist: "distinct (getSurroundingCoordinates nav target)"
    unfolding gsc using tij(2,3) by (auto simp: nth_eq_iff_index_eq [OF dc] nth_eq_iff_index_eq [OF dr])
  have d1: "calculateDistance nav target (Coordinate (cols ! (i - 1)) (rows ! j)) = Some (Inr 1)" if "0 < i"
    unfolding tij(1) using that tij(2)
    by (subst calculateDistance_on_grid [OF g tij(2) _ tij(3) tij(3)]) auto
  have d2: "calculateDistance nav target (Coordinate (cols ! Suc i) (rows ! j)) = Some (Inr 1)" if "Suc i < length cols"
    unfolding tij(1) using that
    by (subst calculateDistance_on_grid [OF g tij(2) _ tij(3) tij(3)]) auto
  have d3: "calculateDistance nav target (Coordinate (cols ! i) (rows ! (j - 1))) = Some (Inr 1)" if "0 < j"
    unfolding tij(1) using that tij(3)
    by (subst calculateDistance_on_grid [OF g tij(2) tij(2) tij(3)]) auto
  have d4: "calculateDistance nav target (Coordinate (cols ! i) (rows ! Suc j)) = Some (Inr 1)" if "Suc j < length rows"
    unfolding tij(1) using that
    by (subst calculateDistance_on_grid [OF g tij(2) tij(2) tij(3)]) auto
  have adj: "\<forall>c \<in> set (getSurroundingCoordinates nav target).
          calculateDistance nav target c = Some (Inr 1)
          \<and> (rowIndex c = rowIndex target
               \<and> (findPreviousColumnIndex nav (columnIndex target) = Some (columnIndex c)
                  \<or> findNextColumnIndex nav (columnIndex target) = Some (columnIndex c))
             \<or> columnIndex c = columnIndex target
               \<and> (findPreviousRowIndex nav (rowIndex target) = Some (rowIndex c)
                  \<or> findNextRowIndex nav (rowIndex target) = Some (rowIndex c)))"
    unfolding gsc using d1 d2 d3 d4 by (auto simp: tij(1) pc nc pr nr split: if_splits)
  have cnt: "length (getSurroundingCoordinates nav target) < 4 \<longleftrightarrow>
          findPreviousColumnIndex nav (columnIndex target) = None
          \<or> findNextColumnIndex nav (columnIndex target) = None
          \<or> findPreviousRowIndex nav (rowIndex target) = None
          \<or> findNextRowIndex nav (rowIndex target) = None"
    unfolding gsc by (simp add: tij(1) pc nc pr nr)
  show ?thesis using len dist adj cnt by blast
qed

theorem getSurroundingCoordinates_adjacent_witness:
  "grid exampleGrid exampleColumns exampleRows
   \<and> on_grid exampleColumns exampleRows (Coordinate ColA 1)
   \<and> getSurroundingCoordinates exampleGrid (Coordinate ColA 1) = [Coordinate ColB 1, Coordinate ColA 2]
   \<and> calculateDistance exampleGrid (Coordinate ColA 1) (Coordinate ColB 1) = Some (Inr 1)
   \<and> calculateDistance exampleGrid (Coordinate ColA 1) (Coordinate ColA 2) = Some (Inr 1)
   \<and> length (getSurroundingCoordinates exampleGrid (Coordinate ColA 1)) < 4
   \<and> findPreviousColumnIndex exampleGrid ColA = None"
proof -
  have t: "on_grid exampleColumns exampleRows (Coordinate ColA 1)"
    by (simp add: on_grid_def exampleColumns_def exampleRows_def)
  have l: "getSurroundingCoordinates exampleGrid (Coordinate ColA 1) = [Coordinate ColB 1, Coordinate ColA 2]"
    by code_simp
  have p: "findPreviousColumnIndex exampleGrid ColA = None"
    by (simp add: exampleGrid_def)
  show ?thesis
    using getSurroundingCoordinates_adjacent [OF exampleGrid_grid t] t p exampleGrid_grid
    unfolding l by simp
qed

text \<open>
  C9, as the code has it. On the example grid the surrounding coordinates of C3 are
  returned in row-major order, rows compared first: C2, then B3 and D3, then C4.
\<close>

theorem getSurroundingCoordinates_example:
  "getSurroundingCoordinates exampleGrid (Coordinate ColC 3)
   = [Coordinate ColC 2, Coordinate ColB 3, Coordinate ColD 3, Coordinate ColC 4]"
  by code_simp

text \<open>
  C9, as stated: the sequence B3, D3, C2, C4 is the order before sorting, not what is
  returned.
\<close>

theorem getSurroundingCoordinates_example_counterexample:
  "getSurroundingCoordinates exampleGrid (Coordinate ColC 3)
   \<noteq> [Coordinate ColB 3, Coordinate ColD 3, Coordinate ColC 2, Coordinate ColC 4]"
  by code_simp

section \<open>Alignments found by \<open>findAlignments\<close>\<close>

lemma those_eq_Some: "those xs = Some ys \<longleftrightarrow> xs = map Some ys"
proof (induction xs arbitrary: ys)
  case Nil
  then show ?case by auto
next
  case (Cons x xs)
  then show ?case by (cases x) (auto simp: map_eq_Cons_conv split: option.splits)
qed

lemma those_map_total:
  "(\<And>x. x \<in> set xs \<Longrightarrow> f x \<noteq> None) \<Longrightarrow> those (map f xs) \<noteq> None"
  by (induction xs) (auto split: option.splits)

lemma set_update_subset: "set (AList.update k v m) \<subseteq> insert (k, v) (set m)"
  by (induction m) auto

lemma set_ImmutableMap_aux:
  "set (foldl (\<lambda>m (k, v). AList.update k v m) acc es) \<subseteq> set acc \<union> set es"
proof (induction es arbitrary: acc)
  case Nil
  then show ?case by simp
next
  case (Cons e es)
  obtain k v where e: "e = (k, v)" by (cases e)
  have "set (foldl (\<lambda>m (k, v). AList.update k v m) (AList.update k v acc) es)
        \<subseteq> set (AList.update k v acc) \<union> set es" by (rule Cons.IH)
  then show ?case using set_update_subset [of k v acc] by (auto simp: e)
qed

lemma set_ImmutableMap: "set (ImmutableMap iteration es) \<subseteq> set es"
proof -
  let ?m = "foldl (\<lambda>m (k, v). AList.update k v m) [] es"
  have m: "set ?m \<subseteq> set es" using set_ImmutableMap_aux [of "[]" es] by simp
  have "set (List.map_filter (\<lambda>k. map_option (Pair k) (map_of ?m k)) ks) \<subseteq> set ?m" for ks
    by (auto simp: List.map_filter_def dest: map_of_SomeD)
  then have "set (ImmutableMap iteration es) \<subseteq> set ?m"
    by (simp add: ImmutableMap_def Let_def)
  then show ?thesis using m by (rule subset_trans)
qed

lemma ImmutableMap_small:
  "length (foldl (\<lambda>m (k, v). AList.update k v m) [] es) \<le> 8 \<Longrightarrow>
   ImmutableMap iteration es = foldl (\<lambda>m (k, v). AList.update k v m) [] es"
  by (simp add: ImmutableMap_def Let_def)

lemma candidatesMap_entry:
  assumes "(ref, cands) \<in> set (candidatesMap nav iteration coords)"
  shows "\<exists>i < length coords. ref = sort_by (createCoordinatesSorter nav) coords ! i
           \<and> cands = drop (i + 1) (sort_by (createCoordinatesSorter nav) coords)"
proof -
  let ?s = "sort_by (createCoordinatesSorter nav) coords"
  have "(ref, cands) \<in> set (map (\<lambda>index. (?s ! index, drop (index + 1) ?s)) [0..<length ?s])"
    using assms set_ImmutableMap unfolding candidatesMap_def Let_def by blast
  then show ?thesis by auto
qed

lemma filterInvalid_mapCandidate:
  assumes "mapCandidateToPotentialAlignment nav c ref = Some ac"
  shows "candidate ac = c" "alignment ac = findCoordinatesAlignmentDirection c ref"
    "filterInvalidAlignmentCandidate maxDistance ac \<longleftrightarrow>
       findCoordinatesAlignmentDirection c ref \<noteq> None
       \<and> (\<exists>d. calculateDistance nav c ref = Some (Inr d) \<and> d \<le> maxDistance)"
proof -
  obtain r where r: "calculateDistance nav c ref = Some r"
    and ac: "ac = \<lparr>candidate = c, alignment = findCoordinatesAlignmentDirection c ref,
                   distance = Either_getOrElse NaN (Either_map Integer r)\<rparr>"
    using assms by (auto simp: mapCandidateToPotentialAlignment_def)
  show "candidate ac = c" "alignment ac = findCoordinatesAlignmentDirection c ref"
    by (simp_all add: ac)
  show "filterInvalidAlignmentCandidate maxDistance ac \<longleftrightarrow>
       findCoordinatesAlignmentDirection c ref \<noteq> None
       \<and> (\<exists>d. calculateDistance nav c ref = Some (Inr d) \<and> d \<le> maxDistance)"
    by (cases r) (simp_all add: ac r filterInvalidAlignmentCandidate_def)
qed

lemma validCandidates_Some:
  assumes "validCandidates nav maxDistance ref cands = Some kept"
  shows "map candidate kept =
           filter (\<lambda>c. findCoordinatesAlignmentDirection c ref \<noteq> None
                       \<and> (\<exists>d. calculateDistance nav c ref = Some (Inr d) \<and> d \<le> maxDistance)) cands"
    and "\<forall>ac \<in> set kept. alignment ac = findCoordinatesAlignmentDirection (candidate ac) ref"
proof -
  obtain acs where acs: "map (\<lambda>c. mapCandidateToPotentialAlignment nav c ref) cands = map Some acs"
    and kept: "kept = filter (filterInvalidAlignmentCandidate maxDistance) acs"
    using assms by (auto simp: validCandidates_def those_eq_Some)
  have len: "length acs = length cands" using arg_cong [OF acs, of length] by simp
  have each: "mapCandidateToPotentialAlignment nav (cands ! i) ref = Some (acs ! i)" if "i < length cands" for i
    using arg_cong [OF acs, of "\<lambda>xs. xs ! i"] that len by simp
  have "map candidate (filter (filterInvalidAlignmentCandidate maxDistance) acs) =
        filter (\<lambda>c. findCoordinatesAlignmentDirection c ref \<noteq> None
                       \<and> (\<exists>d. calculateDistance nav c ref = Some (Inr d) \<and> d \<le> maxDistance)) cands"
    using len each
  proof (induction cands arbitrary: acs)
    case Nil
    then show ?case by simp
  next
    case (Cons c cs)
    then obtain a as where a: "acs = a # as" by (cases acs) auto
    have hd: "mapCandidateToPotentialAlignment nav c ref = Some a"
      using Cons.prems(2) [of 0] a by simp
    have tl: "mapCandidateToPotentialAlignment nav (cs ! i) ref = Some (as ! i)" if "i < length cs" for i
      using Cons.prems(2) [of "Suc i"] a that by simp
    have IH: "map candidate (filter (filterInvalidAlignmentCandidate maxDistance) as) =
        filter (\<lambda>c. findCoordinatesAlignmentDirection c ref \<noteq> None
                       \<and> (\<exists>d. calculateDistance nav c ref = Some (Inr d) \<and> d \<le> maxDistance)) cs"
      using Cons.prems(1) a tl by (intro Cons.IH) auto
    show ?case
      using filterInvalid_mapCandidate(1) [OF hd] filterInvalid_mapCandidate(3) [OF hd, of maxDistance] IH
      by (simp add: a)
  qed
  then show "map candidate kept =
           filter (\<lambda>c. findCoordinatesAlignmentDirection c ref \<noteq> None
                       \<and> (\<exists>d. calculateDistance nav c ref = Some (Inr d) \<and> d \<le> maxDistance)) cands"
    by (simp add: kept)
  show "\<forall>ac \<in> set kept. alignment ac = findCoordinatesAlignmentDirection (candidate ac) ref"
  proof
    fix ac assume "ac \<in> set kept"
    then have "ac \<in> set acs" by (simp add: kept)
    then obtain i where i: "i < length acs" "ac = acs ! i" by (auto simp: in_set_conv_nth)
    then have "mapCandidateToPotentialAlignment nav (cands ! i) ref = Some ac" using each len by simp
    then show "alignment ac = findCoordinatesAlignmentDirection (candidate ac) ref"
      using filterInvalid_mapCandidate(1,2) by metis
  qed
qed

lemma set_filter_indexed: "set (filter_indexed p xs) \<subseteq> set xs"
proof -
  show ?thesis by (auto simp: filter_indexed_def in_set_enumerate_eq)
qed

lemma findAlignments_member:
  assumes "findAlignments nav iteration coords maxDistance = Some als" "al \<in> set als"
  shows "\<exists>ref cands kept dir. (ref, cands) \<in> set (candidatesMap nav (iteration 0) coords)
           \<and> validCandidates nav maxDistance ref cands = Some kept
           \<and> al = groupCandidatesFromDirection nav dir kept ref
           \<and> 1 < length (coordinates al)"
proof -
  let ?entries = "ImmutableMap (iteration 1)
    (filter (\<lambda>(ref, candidates). length candidates > 0) (candidatesMap nav (iteration 0) coords))"
  let ?G = "\<lambda>(ref, candidates).
     (ref, [groupCandidatesFromDirection nav HORIZONTAL candidates ref,
            groupCandidatesFromDirection nav VERTICAL candidates ref])"
  obtain valid where v0: "those (map (\<lambda>(ref, candidates).
                 map_option (Pair ref) (validCandidates nav maxDistance ref candidates)) ?entries) = Some valid"
    and als: "als = filter_indexed filterRedundantAlignments
           (filter (\<lambda>al. length (coordinates al) > 1)
             (concat (map snd
               (ImmutableMap (iteration 4)
                 (map ?G
                    (ImmutableMap (iteration 3)
                       (filter (\<lambda>(ref, candidates). length candidates > 0)
                          (ImmutableMap (iteration 2) valid))))))))"
    using assms(1) unfolding findAlignments_def bind_eq_Some_conv by (elim exE conjE) simp
  let ?M2 = "ImmutableMap (iteration 2) valid"
  let ?M3 = "ImmutableMap (iteration 3) (filter (\<lambda>(ref, candidates). length candidates > 0) ?M2)"
  let ?M4 = "ImmutableMap (iteration 4) (map ?G ?M3)"
  have v: "map (\<lambda>(ref, candidates).
                 map_option (Pair ref) (validCandidates nav maxDistance ref candidates)) ?entries = map Some valid"
    using v0 by (simp only: those_eq_Some)
  have "al \<in> set (filter (\<lambda>al. length (coordinates al) > 1) (concat (map snd ?M4)))"
    using assms(2) unfolding als by (rule subsetD [OF set_filter_indexed])
  then obtain e where e: "e \<in> set ?M4" "al \<in> set (snd e)" and l: "1 < length (coordinates al)"
    by auto
  have "e \<in> set (map ?G ?M3)" using e(1) by (rule subsetD [OF set_ImmutableMap])
  then obtain ref kept where rk: "(ref, kept) \<in> set ?M3"
    and ee: "e = (ref, [groupCandidatesFromDirection nav HORIZONTAL kept ref,
                        groupCandidatesFromDirection nav VERTICAL kept ref])"
    by auto
  have "(ref, kept) \<in> set (filter (\<lambda>(ref, candidates). length candidates > 0) ?M2)"
    using rk by (rule subsetD [OF set_ImmutableMap])
  then have "(ref, kept) \<in> set ?M2" by simp
  then have m: "(ref, kept) \<in> set valid" by (rule subsetD [OF set_ImmutableMap])
  obtain dir where al: "al = groupCandidatesFromDirection nav dir kept ref"
    using e(2) unfolding ee by auto
  obtain i where i: "i < length valid" "valid ! i = (ref, kept)" using m by (auto simp: in_set_conv_nth)
  have len: "length ?entries = length valid" using arg_cong [OF v, of length] by simp
  obtain ref' cands where e': "?entries ! i = (ref', cands)" by (cases "?entries ! i")
  have "(\<lambda>(ref, candidates). map_option (Pair ref) (validCandidates nav maxDistance ref candidates)) (?entries ! i)
        = Some (valid ! i)"
    using arg_cong [OF v, of "\<lambda>xs. xs ! i"] i(1) len by simp
  then have vc: "validCandidates nav maxDistance ref cands = Some kept" and r: "ref' = ref"
    using e' i(2) by auto
  have "?entries ! i \<in> set ?entries" using i(1) len by (intro nth_mem) simp
  then have "(ref, cands) \<in> set ?entries" using e' r by simp
  then have "(ref, cands) \<in> set (filter (\<lambda>(ref, candidates). length candidates > 0)
                                    (candidatesMap nav (iteration 0) coords))"
    by (rule subsetD [OF set_ImmutableMap])
  then have "(ref, cands) \<in> set (candidatesMap nav (iteration 0) coords)" by simp
  then show ?thesis using vc al l by blast
qed

lemma calculateDistance_total_on_grid:
  assumes "grid nav cols rows" "on_grid cols rows a" "on_grid cols rows b"
  shows "calculateDistance nav a b \<noteq> None"
proof -
  obtain ia ja where a: "a = Coordinate (cols ! ia) (rows ! ja)" "ia < length cols" "ja < length rows"
    using assms(2) by (cases a) (auto simp: on_grid_def in_set_conv_nth)
  obtain ib jb where b: "b = Coordinate (cols ! ib) (rows ! jb)" "ib < length cols" "jb < length rows"
    using assms(3) by (cases b) (auto simp: on_grid_def in_set_conv_nth)
  show ?thesis unfolding a b
    by (subst calculateDistance_on_grid [OF assms(1) a(2) b(2) a(3) b(3)]) simp
qed

lemma validCandidates_total_on_grid:
  assumes "grid nav cols rows" "on_grid cols rows ref" "\<forall>c \<in> set cands. on_grid cols rows c"
  shows "validCandidates nav maxDistance ref cands \<noteq> None"
proof -
  have "those (map (\<lambda>cand. mapCandidateToPotentialAlignment nav cand ref) cands) \<noteq> None"
  proof (rule those_map_total)
    fix c assume "c \<in> set cands"
    then have "calculateDistance nav c ref \<noteq> None"
      using assms by (intro calculateDistance_total_on_grid [of nav cols rows]) auto
    then show "mapCandidateToPotentialAlignment nav c ref \<noteq> None"
      by (simp add: mapCandidateToPotentialAlignment_def)
  qed
  then show ?thesis by (simp add: validCandidates_def)
qed

lemma findAlignments_total_on_grid:
  assumes g: "grid nav cols rows" and on: "\<forall>c \<in> set coords. on_grid cols rows c"
  shows "findAlignments nav iteration coords maxDistance \<noteq> None"
proof -
  let ?entries = "ImmutableMap (iteration 1)
    (filter (\<lambda>(ref, candidates). length candidates > 0) (candidatesMap nav (iteration 0) coords))"
  have "those (map (\<lambda>(ref, candidates).
                 map_option (Pair ref) (validCandidates nav maxDistance ref candidates)) ?entries) \<noteq> None"
  proof (rule those_map_total)
    fix e assume e: "e \<in> set ?entries"
    obtain ref cands where rc: "e = (ref, cands)" by (cases e)
    have "e \<in> set (filter (\<lambda>(ref, candidates). length candidates > 0)
                      (candidatesMap nav (iteration 0) coords))"
      using e by (rule subsetD [OF set_ImmutableMap])
    then have "(ref, cands) \<in> set (candidatesMap nav (iteration 0) coords)" using rc by simp
    then obtain i where i: "i < length coords" "ref = sort_by (createCoordinatesSorter nav) coords ! i"
      "cands = drop (i + 1) (sort_by (createCoordinatesSorter nav) coords)"
      using candidatesMap_entry by blast
    have "ref \<in> set (sort_by (createCoordinatesSorter nav) coords)"
      unfolding i(2) using i(1) by (intro nth_mem) simp
    then have r: "on_grid cols rows ref" using on by simp
    have "set cands \<subseteq> set (sort_by (createCoordinatesSorter nav) coords)"
      unfolding i(3) by (rule set_drop_subset)
    then have c: "\<forall>c \<in> set cands. on_grid cols rows c" using on by auto
    show "(case e of (ref, candidates) \<Rightarrow>
             map_option (Pair ref) (validCandidates nav maxDistance ref candidates)) \<noteq> None"
      using validCandidates_total_on_grid [OF g r c, of maxDistance] by (simp add: rc)
  qed
  then show ?thesis by (auto simp: findAlignments_def)
qed

lemma direction_group [simp]: "direction (groupCandidatesFromDirection nav dir kept ref) = dir"
  by (simp add: groupCandidatesFromDirection_def)

lemma set_coordinates_group:
  "set (coordinates (groupCandidatesFromDirection nav dir kept ref))
   = insert ref (candidate ` {ac \<in> set kept. alignment ac = Some dir})"
  by (auto simp: groupCandidatesFromDirection_def)

lemma distinct_nth_drop:
  assumes "distinct xs" "i < length xs"
  shows "xs ! i \<notin> set (drop (i + 1) xs) \<and> distinct (drop (i + 1) xs)"
proof -
  have "xs = take i xs @ xs ! i # drop (Suc i) xs" using assms(2) by (rule id_take_nth_drop)
  then have "distinct (take i xs @ xs ! i # drop (Suc i) xs)" using assms(1) by simp
  then show ?thesis by simp
qed


lemma findAlignments_member_props:
  assumes fa: "findAlignments nav iteration coords maxDistance = Some als" and al: "al \<in> set als"
  shows "2 \<le> length (coordinates al)"
    and "set (coordinates al) \<subseteq> set coords"
    and "direction al = HORIZONTAL \<Longrightarrow> \<exists>r. \<forall>c \<in> set (coordinates al). rowIndex c = r"
    and "direction al = VERTICAL \<Longrightarrow> \<exists>k. \<forall>c \<in> set (coordinates al). columnIndex c = k"
    and "distinct coords \<Longrightarrow> distinct (coordinates al)"
proof -
  obtain ref cands kept dir where m: "(ref, cands) \<in> set (candidatesMap nav (iteration 0) coords)"
    and vc: "validCandidates nav maxDistance ref cands = Some kept"
    and al: "al = groupCandidatesFromDirection nav dir kept ref"
    and l: "1 < length (coordinates al)"
    using findAlignments_member [OF fa al] by blast
  let ?s = "sort_by (createCoordinatesSorter nav) coords"
  obtain i where i: "i < length coords" "ref = ?s ! i" "cands = drop (i + 1) ?s"
    using candidatesMap_entry [OF m] by blast
  have mk: "map candidate kept =
         filter (\<lambda>c. findCoordinatesAlignmentDirection c ref \<noteq> None
                     \<and> (\<exists>d. calculateDistance nav c ref = Some (Inr d) \<and> d \<le> maxDistance)) cands"
    by (rule validCandidates_Some(1) [OF vc])
  have sk: "set (map candidate kept) \<subseteq> set cands" unfolding mk by auto
  show "2 \<le> length (coordinates al)" using l by simp
  have rin: "ref \<in> set coords"
  proof -
    have "?s ! i \<in> set ?s" using i(1) by (intro nth_mem) simp
    then show ?thesis by (simp add: i(2))
  qed
  have cin: "set cands \<subseteq> set coords"
  proof -
    have "set (drop (i + 1) ?s) \<subseteq> set ?s" by (rule set_drop_subset)
    then show ?thesis by (simp add: i(3))
  qed
  show "set (coordinates al) \<subseteq> set coords"
    unfolding al set_coordinates_group using rin cin sk by auto
  have dirs: "findCoordinatesAlignmentDirection c ref = Some dir" if "c \<in> set (coordinates al)" "c \<noteq> ref" for c
    using that validCandidates_Some(2) [OF vc] unfolding al set_coordinates_group by auto
  {
    assume "direction al = HORIZONTAL"
    then have "dir = HORIZONTAL" by (simp add: al)
    then have "\<forall>c \<in> set (coordinates al). rowIndex c = rowIndex ref"
      using dirs by (fastforce simp: findCoordinatesAlignmentDirection_def split: if_splits)
    then show "\<exists>r. \<forall>c \<in> set (coordinates al). rowIndex c = r" by blast
  }
  {
    assume "direction al = VERTICAL"
    then have "dir = VERTICAL" by (simp add: al)
    then have "\<forall>c \<in> set (coordinates al). columnIndex c = columnIndex ref"
      using dirs by (fastforce simp: findCoordinatesAlignmentDirection_def split: if_splits)
    then show "\<exists>k. \<forall>c \<in> set (coordinates al). columnIndex c = k" by blast
  }
  {
    assume d: "distinct coords"
    have rc: "ref \<notin> set cands \<and> distinct cands"
      unfolding i(2,3) using d i(1) by (intro distinct_nth_drop) simp_all
    have dk: "distinct (map candidate kept)" unfolding mk using rc by simp
    have "distinct (map candidate (filter (\<lambda>ac. alignment ac = Some dir) kept))"
      using dk by (rule distinct_map_filter)
    moreover have "ref \<notin> set (map candidate (filter (\<lambda>ac. alignment ac = Some dir) kept))"
      using sk rc by auto
    ultimately show "distinct (coordinates al)"
      by (simp add: al groupCandidatesFromDirection_def)
  }
qed


text \<open>
  C4, as the code has it. On a well-formed grid \<open>findAlignments\<close> returns for coordinates
  of the grid. Whatever the navigator and whatever the order in which the maps of more
  than eight entries iterate, every alignment it returns has at least 2 coordinates,
  the members of a HORIZONTAL alignment share one row index and those of a VERTICAL
  alignment share one column index; and when the input holds no coordinate twice, no
  alignment holds a coordinate twice.
\<close>

theorem findAlignments_groups:
  "(grid nav cols rows \<and> (\<forall>c \<in> set coords. on_grid cols rows c)
      \<longrightarrow> findAlignments nav iteration coords maxDistance \<noteq> None)
   \<and> (\<forall>als al. findAlignments nav iteration coords maxDistance = Some als \<and> al \<in> set als \<longrightarrow>
         2 \<le> length (coordinates al)
         \<and> (direction al = HORIZONTAL \<longrightarrow> (\<exists>r. \<forall>c \<in> set (coordinates al). rowIndex c = r))
         \<and> (direction al = VERTICAL \<longrightarrow> (\<exists>k. \<forall>c \<in> set (coordinates al). columnIndex c = k))
         \<and> (distinct coords \<longrightarrow> distinct (coordinates al)))"
proof (intro conjI allI impI; (elim conjE)?)
  assume "grid nav cols rows" "\<forall>c \<in> set coords. on_grid cols rows c"
  then show "findAlignments nav iteration coords maxDistance \<noteq> None"
    by (rule findAlignments_total_on_grid)
next
  fix als al
  assume fa: "findAlignments nav iteration coords maxDistance = Some als" and al: "al \<in> set als"
  show "2 \<le> length (coordinates al)" by (rule findAlignments_member_props(1) [OF fa al])
  show "\<exists>r. \<forall>c \<in> set (coordinates al). rowIndex c = r" if "direction al = HORIZONTAL"
    using that by (rule findAlignments_member_props(3) [OF fa al])
  show "\<exists>k. \<forall>c \<in> set (coordinates al). columnIndex c = k" if "direction al = VERTICAL"
    using that by (rule findAlignments_member_props(4) [OF fa al])
  show "distinct (coordinates al)" if "distinct coords"
    using that by (rule findAlignments_member_props(5) [OF fa al])
qed

theorem findAlignments_groups_witness:
  "findAlignments exampleGrid exampleIteration
     [Coordinate ColA 1, Coordinate ColA 2, Coordinate ColA 3, Coordinate ColA 5, Coordinate ColE 1] 4
   = Some [\<lparr>direction = HORIZONTAL, coordinates = [Coordinate ColA 1, Coordinate ColE 1]\<rparr>,
           \<lparr>direction = VERTICAL,
              coordinates = [Coordinate ColA 1, Coordinate ColA 2, Coordinate ColA 3, Coordinate ColA 5]\<rparr>]
   \<and> distinct [Coordinate ColA (1::nat), Coordinate ColA 2, Coordinate ColA 3, Coordinate ColA 5, Coordinate ColE 1]
   \<and> 2 \<le> length [Coordinate ColA (1::nat), Coordinate ColA 2, Coordinate ColA 3, Coordinate ColA 5]
   \<and> (\<exists>k. \<forall>c \<in> set [Coordinate ColA (1::nat), Coordinate ColA 2, Coordinate ColA 3, Coordinate ColA 5].
          columnIndex c = k)
   \<and> distinct [Coordinate ColA (1::nat), Coordinate ColA 2, Coordinate ColA 3, Coordinate ColA 5]
   \<and> findAlignments exampleGrid exampleIteration
        [Coordinate ColA 1, Coordinate ColB 1, Coordinate ColC 1, Coordinate ColD 1, Coordinate ColE 1,
         Coordinate ColA 2, Coordinate ColA 3, Coordinate ColA 4, Coordinate ColA 5] 4
      = Some [\<lparr>direction = VERTICAL, coordinates = [Coordinate ColA 4, Coordinate ColA 5]\<rparr>,
              \<lparr>direction = VERTICAL, coordinates = [Coordinate ColA 3, Coordinate ColA 4, Coordinate ColA 5]\<rparr>,
              \<lparr>direction = VERTICAL,
                 coordinates = [Coordinate ColA 2, Coordinate ColA 3, Coordinate ColA 4, Coordinate ColA 5]\<rparr>,
              \<lparr>direction = HORIZONTAL, coordinates = [Coordinate ColD 1, Coordinate ColE 1]\<rparr>,
              \<lparr>direction = HORIZONTAL, coordinates = [Coordinate ColC 1, Coordinate ColD 1, Coordinate ColE 1]\<rparr>,
              \<lparr>direction = HORIZONTAL,
                 coordinates = [Coordinate ColB 1, Coordinate ColC 1, Coordinate ColD 1, Coordinate ColE 1]\<rparr>,
              \<lparr>direction = HORIZONTAL,
                 coordinates = [Coordinate ColA 1, Coordinate ColB 1, Coordinate ColC 1, Coordinate ColD 1,
                                Coordinate ColE 1]\<rparr>,
              \<lparr>direction = VERTICAL,
                 coordinates = [Coordinate ColA 1, Coordinate ColA 2, Coordinate ColA 3, Coordinate ColA 4,
                                Coordinate ColA 5]\<rparr>]
   \<and> distinct [Coordinate ColA (1::nat), Coordinate ColB 1, Coordinate ColC 1, Coordinate ColD 1, Coordinate ColE 1,
         Coordinate ColA 2, Coordinate ColA 3, Coordinate ColA 4, Coordinate ColA 5]
   \<and> 2 \<le> length [Coordinate ColC (1::nat), Coordinate ColD 1, Coordinate ColE 1]
   \<and> (\<exists>r. \<forall>c \<in> set [Coordinate ColC (1::nat), Coordinate ColD 1, Coordinate ColE 1]. rowIndex c = r)
   \<and> distinct [Coordinate ColC (1::nat), Coordinate ColD 1, Coordinate ColE 1]"
proof -
  let ?cs = "[Coordinate ColA (1::nat), Coordinate ColA 2, Coordinate ColA 3, Coordinate ColA 5, Coordinate ColE 1]"
  let ?h = "\<lparr>direction = HORIZONTAL, coordinates = [Coordinate ColA (1::nat), Coordinate ColE 1]\<rparr>"
  let ?v = "\<lparr>direction = VERTICAL,
              coordinates = [Coordinate ColA (1::nat), Coordinate ColA 2, Coordinate ColA 3, Coordinate ColA 5]\<rparr>"
  have fa: "findAlignments exampleGrid exampleIteration ?cs 4 = Some [?h, ?v]"
    by code_simp
  have d: "distinct ?cs" by simp
  have "\<forall>als al. findAlignments exampleGrid exampleIteration ?cs 4 = Some als \<and> al \<in> set als \<longrightarrow>
         2 \<le> length (coordinates al)
         \<and> (direction al = HORIZONTAL \<longrightarrow> (\<exists>r. \<forall>c \<in> set (coordinates al). rowIndex c = r))
         \<and> (direction al = VERTICAL \<longrightarrow> (\<exists>k. \<forall>c \<in> set (coordinates al). columnIndex c = k))
         \<and> (distinct ?cs \<longrightarrow> distinct (coordinates al))"
    using findAlignments_groups [of exampleGrid exampleColumns exampleRows ?cs exampleIteration 4]
    by (rule conjunct2)
  from this [rule_format, of "[?h, ?v]" ?v] fa d
  have p5: "2 \<le> length (coordinates ?v)
         \<and> (\<exists>k. \<forall>c \<in> set (coordinates ?v). columnIndex c = k)
         \<and> distinct (coordinates ?v)"
    by simp
  let ?cs9 = "[Coordinate ColA (1::nat), Coordinate ColB 1, Coordinate ColC 1, Coordinate ColD 1, Coordinate ColE 1,
         Coordinate ColA 2, Coordinate ColA 3, Coordinate ColA 4, Coordinate ColA 5]"
  let ?c = "\<lparr>direction = HORIZONTAL, coordinates = [Coordinate ColC (1::nat), Coordinate ColD 1, Coordinate ColE 1]\<rparr>"
  let ?als9 = "[\<lparr>direction = VERTICAL, coordinates = [Coordinate ColA (4::nat), Coordinate ColA 5]\<rparr>,
              \<lparr>direction = VERTICAL, coordinates = [Coordinate ColA 3, Coordinate ColA 4, Coordinate ColA 5]\<rparr>,
              \<lparr>direction = VERTICAL,
                 coordinates = [Coordinate ColA 2, Coordinate ColA 3, Coordinate ColA 4, Coordinate ColA 5]\<rparr>,
              \<lparr>direction = HORIZONTAL, coordinates = [Coordinate ColD 1, Coordinate ColE 1]\<rparr>,
              ?c,
              \<lparr>direction = HORIZONTAL,
                 coordinates = [Coordinate ColB 1, Coordinate ColC 1, Coordinate ColD 1, Coordinate ColE 1]\<rparr>,
              \<lparr>direction = HORIZONTAL,
                 coordinates = [Coordinate ColA 1, Coordinate ColB 1, Coordinate ColC 1, Coordinate ColD 1,
                                Coordinate ColE 1]\<rparr>,
              \<lparr>direction = VERTICAL,
                 coordinates = [Coordinate ColA 1, Coordinate ColA 2, Coordinate ColA 3, Coordinate ColA 4,
                                Coordinate ColA 5]\<rparr>]"
  have fa9: "findAlignments exampleGrid exampleIteration ?cs9 4 = Some ?als9"
    by code_simp
  have d9: "distinct ?cs9" by simp
  have cin: "?c \<in> set ?als9" by simp
  have "\<forall>als al. findAlignments exampleGrid exampleIteration ?cs9 4 = Some als \<and> al \<in> set als \<longrightarrow>
         2 \<le> length (coordinates al)
         \<and> (direction al = HORIZONTAL \<longrightarrow> (\<exists>r. \<forall>c \<in> set (coordinates al). rowIndex c = r))
         \<and> (direction al = VERTICAL \<longrightarrow> (\<exists>k. \<forall>c \<in> set (coordinates al). columnIndex c = k))
         \<and> (distinct ?cs9 \<longrightarrow> distinct (coordinates al))"
    using findAlignments_groups [of exampleGrid exampleColumns exampleRows ?cs9 exampleIteration 4]
    by (rule conjunct2)
  from this [rule_format, of ?als9 ?c, OF conjI [OF fa9 cin]] d9
  have p9: "2 \<le> length (coordinates ?c)
         \<and> (\<exists>r. \<forall>c \<in> set (coordinates ?c). rowIndex c = r)
         \<and> distinct (coordinates ?c)"
    by simp
  show ?thesis using fa d p5 fa9 d9 p9 by simp
qed

text \<open>
  C4, as stated, fails on an input that repeats a coordinate: for A1, A2, A2 the
  VERTICAL alignment returned holds A2 twice. The maps built on the way have two
  entries at most, so they iterate in the order of insertion.
\<close>

theorem findAlignments_groups_counterexample:
  "findAlignments exampleGrid exampleIteration [Coordinate ColA 1, Coordinate ColA 2, Coordinate ColA 2] 4
   = Some [\<lparr>direction = VERTICAL, coordinates = [Coordinate ColA 1, Coordinate ColA 2, Coordinate ColA 2]\<rparr>]
   \<and> \<not> distinct [Coordinate ColA (1::nat), Coordinate ColA 2, Coordinate ColA 2]"
  by code_simp

text \<open>
  C5. On a well-formed grid the candidates of a reference are always worked out, and
  the candidates that \<open>findAlignments\<close> retains for the reference are, in order, exactly
  the candidates whose alignment direction with the reference is defined and whose
  distance to it is a number of steps \<open>d\<close> with \<open>d \<le> maxDistance\<close>: a candidate at
  distance \<open>maxDistance\<close> is kept, one with no distance (not a number) or a greater
  distance is discarded. The same holds of every navigator on which the distances of
  the candidates are worked out.
\<close>

theorem validCandidates_retained:
  "(grid nav cols rows \<and> on_grid cols rows ref \<and> (\<forall>c \<in> set candidates. on_grid cols rows c)
      \<longrightarrow> (\<exists>kept. validCandidates nav maxDistance ref candidates = Some kept
             \<and> map candidate kept =
                 filter (\<lambda>c. findCoordinatesAlignmentDirection c ref \<noteq> None
                             \<and> (\<exists>d. calculateDistance nav c ref = Some (Inr d) \<and> d \<le> maxDistance))
                        candidates))
   \<and> (\<forall>kept. validCandidates nav maxDistance ref candidates = Some kept \<longrightarrow>
         map candidate kept =
           filter (\<lambda>c. findCoordinatesAlignmentDirection c ref \<noteq> None
                       \<and> (\<exists>d. calculateDistance nav c ref = Some (Inr d) \<and> d \<le> maxDistance))
                  candidates)"
proof (intro conjI allI impI; (elim conjE)?)
  fix kept
  assume "validCandidates nav maxDistance ref candidates = Some kept"
  then show "map candidate kept =
           filter (\<lambda>c. findCoordinatesAlignmentDirection c ref \<noteq> None
                       \<and> (\<exists>d. calculateDistance nav c ref = Some (Inr d) \<and> d \<le> maxDistance))
                  candidates"
    by (rule validCandidates_Some(1))
next
  assume "grid nav cols rows" "on_grid cols rows ref" "\<forall>c \<in> set candidates. on_grid cols rows c"
  then have "validCandidates nav maxDistance ref candidates \<noteq> None"
    by (rule validCandidates_total_on_grid)
  then obtain kept where k: "validCandidates nav maxDistance ref candidates = Some kept" by blast
  have "map candidate kept =
           filter (\<lambda>c. findCoordinatesAlignmentDirection c ref \<noteq> None
                       \<and> (\<exists>d. calculateDistance nav c ref = Some (Inr d) \<and> d \<le> maxDistance))
                  candidates"
    using k by (rule validCandidates_Some(1))
  then show "\<exists>kept. validCandidates nav maxDistance ref candidates = Some kept
             \<and> map candidate kept =
                 filter (\<lambda>c. findCoordinatesAlignmentDirection c ref \<noteq> None
                             \<and> (\<exists>d. calculateDistance nav c ref = Some (Inr d) \<and> d \<le> maxDistance))
                        candidates"
    using k by blast
qed

theorem validCandidates_retained_witness:
  "grid exampleGrid exampleColumns exampleRows
   \<and> on_grid exampleColumns exampleRows (Coordinate ColA 1)
   \<and> on_grid exampleColumns exampleRows (Coordinate ColE 1)
   \<and> on_grid exampleColumns exampleRows (Coordinate ColA 2)
   \<and> on_grid exampleColumns exampleRows (Coordinate ColB 2)
   \<and> (\<exists>kept. validCandidates exampleGrid 4 (Coordinate ColA 1)
                [Coordinate ColE 1, Coordinate ColA 2, Coordinate ColB 2] = Some kept
         \<and> map candidate kept = [Coordinate ColE 1, Coordinate ColA 2])
   \<and> (\<exists>kept. validCandidates exampleGrid 3 (Coordinate ColA 1)
                [Coordinate ColE 1, Coordinate ColA 2, Coordinate ColB 2] = Some kept
         \<and> map candidate kept = [Coordinate ColA 2])
   \<and> validCandidates exampleGrid 4 (Coordinate ColA 1) [Coordinate ColE 1, Coordinate ColA 2, Coordinate ColB 2]
       = Some [\<lparr>candidate = Coordinate ColE 1, alignment = Some HORIZONTAL, distance = Integer 4\<rparr>,
               \<lparr>candidate = Coordinate ColA 2, alignment = Some VERTICAL, distance = Integer 1\<rparr>]
   \<and> validCandidates exampleGrid 3 (Coordinate ColA 1) [Coordinate ColE 1, Coordinate ColA 2, Coordinate ColB 2]
       = Some [\<lparr>candidate = Coordinate ColA 2, alignment = Some VERTICAL, distance = Integer 1\<rparr>]
   \<and> calculateDistance exampleGrid (Coordinate ColE 1) (Coordinate ColA 1) = Some (Inr 4)
   \<and> calculateDistance exampleGrid (Coordinate ColA 2) (Coordinate ColA 1) = Some (Inr 1)
   \<and> calculateDistance exampleGrid (Coordinate ColB 2) (Coordinate ColA 1)
       = Some (Inl (NonAlignedCoordinates (Coordinate ColA 1) (Coordinate ColB 2)))"
proof -
  let ?cands = "[Coordinate ColE (1::nat), Coordinate ColA 2, Coordinate ColB 2]"
  have r: "on_grid exampleColumns exampleRows (Coordinate ColA 1)"
    and e1: "on_grid exampleColumns exampleRows (Coordinate ColE 1)"
    and a2: "on_grid exampleColumns exampleRows (Coordinate ColA 2)"
    and b2: "on_grid exampleColumns exampleRows (Coordinate ColB 2)"
    by (simp_all add: on_grid_def exampleColumns_def exampleRows_def)
  have on: "\<forall>c \<in> set ?cands. on_grid exampleColumns exampleRows c" using e1 a2 b2 by simp
  have dE: "calculateDistance exampleGrid (Coordinate ColE 1) (Coordinate ColA 1) = Some (Inr 4)"
    by code_simp
  have dA: "calculateDistance exampleGrid (Coordinate ColA 2) (Coordinate ColA 1) = Some (Inr 1)"
    by code_simp
  have dB: "calculateDistance exampleGrid (Coordinate ColB 2) (Coordinate ColA 1)
       = Some (Inl (NonAlignedCoordinates (Coordinate ColA 1) (Coordinate ColB 2)))"
    by code_simp
  have f4: "filter (\<lambda>c. findCoordinatesAlignmentDirection c (Coordinate ColA 1) \<noteq> None
                  \<and> (\<exists>d. calculateDistance exampleGrid c (Coordinate ColA 1) = Some (Inr d) \<and> d \<le> 4)) ?cands
      = [Coordinate ColE 1, Coordinate ColA 2]"
    using dE dA dB by (simp add: findCoordinatesAlignmentDirection_def)
  have f3: "filter (\<lambda>c. findCoordinatesAlignmentDirection c (Coordinate ColA 1) \<noteq> None
                  \<and> (\<exists>d. calculateDistance exampleGrid c (Coordinate ColA 1) = Some (Inr d) \<and> d \<le> 3)) ?cands
      = [Coordinate ColA 2]"
    using dE dA dB by (simp add: findCoordinatesAlignmentDirection_def)
  have k4: "\<exists>kept. validCandidates exampleGrid 4 (Coordinate ColA 1) ?cands = Some kept
         \<and> map candidate kept = [Coordinate ColE 1, Coordinate ColA 2]"
    using validCandidates_retained [of exampleGrid exampleColumns exampleRows "Coordinate ColA 1" ?cands 4]
      exampleGrid_grid r on
    unfolding f4 by blast
  have k3: "\<exists>kept. validCandidates exampleGrid 3 (Coordinate ColA 1) ?cands = Some kept
         \<and> map candidate kept = [Coordinate ColA 2]"
    using validCandidates_retained [of exampleGrid exampleColumns exampleRows "Coordinate ColA 1" ?cands 3]
      exampleGrid_grid r on
    unfolding f3 by blast
  have v4: "validCandidates exampleGrid 4 (Coordinate ColA 1) ?cands
       = Some [\<lparr>candidate = Coordinate ColE 1, alignment = Some HORIZONTAL, distance = Integer 4\<rparr>,
               \<lparr>candidate = Coordinate ColA 2, alignment = Some VERTICAL, distance = Integer 1\<rparr>]"
    by code_simp
  have v3: "validCandidates exampleGrid 3 (Coordinate ColA 1) ?cands
       = Some [\<lparr>candidate = Coordinate ColA 2, alignment = Some VERTICAL, distance = Integer 1\<rparr>]"
    by code_simp
  show ?thesis using exampleGrid_grid r e1 a2 b2 k4 k3 v4 v3 dE dA dB by blast
qed

text \<open>
  C6 fails on the code. For A1, A2, B2, A3 and a maximal distance of 4 the alignments
  before the redundancy filter are VERTICAL A1 A2 A3, HORIZONTAL A2 B2, VERTICAL A2 A3;
  the filter compares VERTICAL A2 A3 with HORIZONTAL A2 B2 only and keeps it, although
  its coordinates are all in VERTICAL A1 A2 A3, which is returned as well. The maps
  built on the way have four entries at most, so they iterate in the order of
  insertion.
\<close>

theorem findAlignments_keeps_contained_alignment:
  "(\<forall>iteration. findAlignments exampleGrid iteration
     [Coordinate ColA 1, Coordinate ColA 2, Coordinate ColB 2, Coordinate ColA 3] 4
   = Some [\<lparr>direction = VERTICAL, coordinates = [Coordinate ColA 1, Coordinate ColA 2, Coordinate ColA 3]\<rparr>,
           \<lparr>direction = HORIZONTAL, coordinates = [Coordinate ColA 2, Coordinate ColB 2]\<rparr>,
           \<lparr>direction = VERTICAL, coordinates = [Coordinate ColA 2, Coordinate ColA 3]\<rparr>])
   \<and> set [Coordinate ColA (2::nat), Coordinate ColA 3]
       \<subseteq> set [Coordinate ColA (1::nat), Coordinate ColA 2, Coordinate ColA 3]"
proof (intro conjI allI)
  fix iteration :: "nat \<Rightarrow> (Letter, nat) Coordinate MapIteration"
  show "findAlignments exampleGrid iteration
     [Coordinate ColA 1, Coordinate ColA 2, Coordinate ColB 2, Coordinate ColA 3] 4
   = Some [\<lparr>direction = VERTICAL, coordinates = [Coordinate ColA 1, Coordinate ColA 2, Coordinate ColA 3]\<rparr>,
           \<lparr>direction = HORIZONTAL, coordinates = [Coordinate ColA 2, Coordinate ColB 2]\<rparr>,
           \<lparr>direction = VERTICAL, coordinates = [Coordinate ColA 2, Coordinate ColA 3]\<rparr>]"
    by code_simp
next
  show "set [Coordinate ColA (2::nat), Coordinate ColA 3]
       \<subseteq> set [Coordinate ColA (1::nat), Coordinate ColA 2, Coordinate ColA 3]"
    by simp
qed

section \<open>Index sequences and the mirror\<close>

lemma chain_tl: "chain nxt (x # xs) \<Longrightarrow> chain nxt xs"
  by (cases xs) simp_all

lemma chain_suffix: "chain nxt (as @ bs) \<Longrightarrow> chain nxt bs"
proof (induction as)
  case Nil
  then show ?case by simp
next
  case (Cons a as)
  then have "chain nxt (as @ bs)" using chain_tl [of nxt a "as @ bs"] by simp
  then show ?case by (rule Cons.IH)
qed

lemma chain_unique: "chain nxt (x # xs) \<Longrightarrow> chain nxt (x # ys) \<Longrightarrow> xs = ys"
proof (induction xs arbitrary: x ys)
  case Nil
  then show ?case by (cases ys) auto
next
  case (Cons a xs)
  then show ?case by (cases ys) auto
qed

lemma chain_distinct: "chain nxt xs \<Longrightarrow> distinct xs"
proof (induction xs)
  case Nil
  then show ?case by simp
next
  case (Cons x xs)
  have cx: "chain nxt xs" using Cons.prems by (rule chain_tl)
  have "x \<notin> set xs"
  proof
    assume "x \<in> set xs"
    then obtain as bs where s: "xs = as @ x # bs" by (meson split_list)
    have "chain nxt (as @ x # bs)" using cx unfolding s .
    then have "chain nxt (x # bs)" by (rule chain_suffix)
    with Cons.prems have "xs = bs" by (rule chain_unique)
    then have "length bs = length (as @ x # bs)" using s by (simp only:)
    then show False by simp
  qed
  then show ?case using Cons.IH [OF cx] by simp
qed

lemma createIndices_loop_chain:
  "chain nxt (p # ys) \<Longrightarrow> createIndices_loop nxt acc p = Some (acc @ ys)"
proof (induction ys arbitrary: acc p)
  case Nil
  then show ?case by (subst createIndices_loop.simps) simp
next
  case (Cons y ys)
  then have "createIndices_loop nxt (acc @ [y]) y = Some ((acc @ [y]) @ ys)" by (intro Cons.IH) simp
  then show ?case using Cons.prems by (subst createIndices_loop.simps) simp
qed

lemma createIndices_chain: "chain nxt (x # xs) \<Longrightarrow> createIndices x nxt = Some (x # xs)"
  using createIndices_loop_chain [of nxt x xs "[x]"] by (simp add: createIndices_def)

lemma createIndices_loop_Some:
  assumes "createIndices_loop nxt0 acc0 p0 = Some xs0"
  shows "\<exists>ys. xs0 = acc0 @ ys \<and> chain nxt0 (p0 # ys)"
proof (rule createIndices_loop.raw_induct
    [where P = "\<lambda>nxt acc p xs. \<exists>ys. xs = acc @ ys \<and> chain nxt (p # ys)", OF _ assms], goal_cases)
  case (1 f nxt acc p xs)
  show ?case
  proof (cases "nxt p")
    case None
    then show ?thesis using 1(2) by simp
  next
    case (Some n)
    then have "f nxt (acc @ [n]) n = Some xs" using 1(2) by simp
    then obtain ys where "xs = (acc @ [n]) @ ys" "chain nxt (n # ys)" using 1(1) by blast
    then have "xs = acc @ n # ys \<and> chain nxt (p # n # ys)" using Some by simp
    then show ?thesis by blast
  qed
qed

lemma createIndices_Some:
  assumes "createIndices x nxt = Some xs"
  shows "chain nxt xs \<and> distinct xs \<and> xs \<noteq> [] \<and> hd xs = x"
proof -
  obtain ys where ys: "xs = [x] @ ys" "chain nxt (x # ys)"
    using createIndices_loop_Some [OF assms [unfolded createIndices_def]] by blast
  have xs: "xs = x # ys" using ys(1) by simp
  show ?thesis unfolding xs using ys(2) chain_distinct [OF ys(2)] by simp
qed

lemma keyOf_Some: "x \<in> set xs \<Longrightarrow> \<exists>i. keyOf xs x = Some i \<and> i < length xs \<and> xs ! i = x"
  by (induction xs) auto

lemma keyOf_nth: "distinct xs \<Longrightarrow> i < length xs \<Longrightarrow> keyOf xs (xs ! i) = Some i"
proof (induction xs arbitrary: i)
  case Nil
  then show ?case by simp
next
  case (Cons x xs)
  then show ?case by (cases i) auto
qed

lemma keyOf_None: "x \<notin> set xs \<Longrightarrow> keyOf xs x = None"
  by (induction xs) auto

lemma map_results_total:
  "(\<And>x. x \<in> set xs \<Longrightarrow> f x = Some (Inr (g x))) \<Longrightarrow> map_results f xs = Some (Inr (map g xs))"
  by (induction xs) simp_all

lemma getReversedRowIndex_on_axis:
  assumes "distinct rowIndices" "i < length rowIndices"
  shows "getReversedRowIndex rowIndices (rowIndices ! i) = Inr (rowIndices ! (length rowIndices - 1 - i))"
  using assms by (simp add: getReversedRowIndex_def keyOf_nth rev_nth Suc_diff_Suc)


text \<open>
  C10. When the grid origin and the row-index sequence (the indices enumerated from the
  origin's row by repeated \<open>next\<close>) exist, then for every list of coordinates whose row
  indices all occur in that sequence \<open>mirror\<close> returns, mirroring the result returns the
  original list, and the column indices are unchanged, element for element.
\<close>

theorem mirror_involution:
  assumes o: "getGridOrigin nav = Some origin"
    and r: "createIndices (rowIndex origin) (findNextRowIndex nav) = Some rowIndices"
    and c: "\<forall>c \<in> set coords. rowIndex c \<in> set rowIndices"
  shows "\<exists>mirrored. mirror nav coords = Some (Inr mirrored)
           \<and> mirror nav mirrored = Some (Inr coords)
           \<and> map columnIndex mirrored = map columnIndex coords"
proof -
  have d: "distinct rowIndices" using createIndices_Some [OF r] by simp
  define flip where "flip = (\<lambda>x. rowIndices ! (length rowIndices - 1 - the (keyOf rowIndices x)))"
  define m :: "('a, 'b) Coordinate \<Rightarrow> ('a, 'b) Coordinate"
    where "m = (\<lambda>c. Coordinate (columnIndex c) (flip (rowIndex c)))"
  have fx: "flip (rowIndices ! k) = rowIndices ! (length rowIndices - 1 - k)" if k: "k < length rowIndices" for k
    by (simp add: flip_def keyOf_nth [OF d k])
  have rev1: "getReversedRowIndex rowIndices x = Inr (flip x)" if xin: "x \<in> set rowIndices" for x
  proof -
    obtain i where i: "i < length rowIndices" "rowIndices ! i = x"
      using xin by (auto simp: in_set_conv_nth)
    show ?thesis
      using getReversedRowIndex_on_axis [OF d i(1)] fx [OF i(1)] by (simp add: i(2))
  qed
  have flip_in: "flip x \<in> set rowIndices" if xin: "x \<in> set rowIndices" for x
  proof -
    obtain i where i: "i < length rowIndices" "rowIndices ! i = x"
      using xin by (auto simp: in_set_conv_nth)
    have j: "length rowIndices - 1 - i < length rowIndices" using i(1) by simp
    have "rowIndices ! (length rowIndices - 1 - i) \<in> set rowIndices" using j by (rule nth_mem)
    then show ?thesis using fx [OF i(1)] by (simp add: i(2))
  qed
  have flip_flip: "flip (flip x) = x" if xin: "x \<in> set rowIndices" for x
  proof -
    obtain i where i: "i < length rowIndices" "rowIndices ! i = x"
      using xin by (auto simp: in_set_conv_nth)
    have j: "length rowIndices - 1 - i < length rowIndices" using i(1) by simp
    have "flip (flip (rowIndices ! i)) = flip (rowIndices ! (length rowIndices - 1 - i))"
      by (simp only: fx [OF i(1)])
    also have "\<dots> = rowIndices ! (length rowIndices - 1 - (length rowIndices - 1 - i))"
      by (rule fx [OF j])
    also have "\<dots> = rowIndices ! i" using i(1) by simp
    finally show ?thesis by (simp add: i(2))
  qed
  have mir: "mirror nav cs = Some (Inr (map m cs))" if "\<forall>c \<in> set cs. rowIndex c \<in> set rowIndices" for cs
  proof -
    have "map_results
         (\<lambda>c. Some (Either_map (Coordinate (columnIndex c)) (getReversedRowIndex rowIndices (rowIndex c))))
         cs = Some (Inr (map m cs))"
      using that by (intro map_results_total) (simp add: rev1 m_def)
    then show ?thesis by (simp add: mirror_def o r)
  qed
  have 1: "mirror nav coords = Some (Inr (map m coords))" using c by (rule mir)
  have "\<forall>c \<in> set (map m coords). rowIndex c \<in> set rowIndices"
    using c flip_in by (auto simp: m_def)
  then have "mirror nav (map m coords) = Some (Inr (map m (map m coords)))" by (rule mir)
  moreover have "map m (map m coords) = coords"
    using c by (induction coords) (auto simp: m_def flip_flip)
  ultimately have 2: "mirror nav (map m coords) = Some (Inr coords)" by simp
  have 3: "map columnIndex (map m coords) = map columnIndex coords" by (simp add: m_def comp_def)
  show ?thesis using 1 2 3 by blast
qed

theorem mirror_involution_witness:
  "getGridOrigin exampleGrid = Some (Coordinate ColA 1)
   \<and> createIndices (rowIndex (Coordinate ColA (1::nat))) (findNextRowIndex exampleGrid) = Some [1, 2, 3, 4, 5]
   \<and> mirror exampleGrid [Coordinate ColA 1, Coordinate ColB 4] = Some (Inr [Coordinate ColA 5, Coordinate ColB 2])
   \<and> mirror exampleGrid [Coordinate ColA 5, Coordinate ColB 2] = Some (Inr [Coordinate ColA 1, Coordinate ColB 4])"
proof -
  have o: "getGridOrigin exampleGrid = Some (Coordinate ColA 1)"
    by code_simp
  have r: "createIndices (rowIndex (Coordinate ColA (1::nat))) (findNextRowIndex exampleGrid) = Some [1, 2, 3, 4, 5]"
    by code_simp
  have c: "\<forall>c \<in> set [Coordinate ColA (1::nat), Coordinate ColB 4]. rowIndex c \<in> set [1, 2, 3, 4, 5]"
    by simp
  have m: "mirror exampleGrid [Coordinate ColA 1, Coordinate ColB 4] = Some (Inr [Coordinate ColA 5, Coordinate ColB 2])"
    by code_simp
  have "mirror exampleGrid [Coordinate ColA 5, Coordinate ColB 2] = Some (Inr [Coordinate ColA 1, Coordinate ColB 4])"
    using mirror_involution [OF o r c] unfolding m by auto
  then show ?thesis using o r m by simp
qed

section \<open>Gaps of an alignment\<close>

lemma sorted_insort_by:
  fixes f :: "'a \<Rightarrow> nat"
  assumes "\<forall>y \<in> set ys. (cmp x y \<le> 0 \<longleftrightarrow> f x \<le> f y)" "sorted (map f ys)"
  shows "sorted (map f (insort_by cmp x ys))"
  using assms
proof (induction ys)
  case Nil
  then show ?case by simp
next
  case (Cons y ys)
  show ?case
  proof (cases "cmp x y \<le> 0")
    case True
    then have "f x \<le> f y" using Cons.prems(1) by simp
    then show ?thesis using True Cons.prems(2) by auto
  next
    case False
    then have "f y \<le> f x" using Cons.prems(1) by auto
    moreover have "sorted (map f (insort_by cmp x ys))" using Cons by simp
    ultimately show ?thesis using False Cons.prems(2) by auto
  qed
qed

lemma sorted_sort_by:
  fixes f :: "'a \<Rightarrow> nat"
  assumes "\<forall>a \<in> set xs. \<forall>b \<in> set xs. (cmp a b \<le> 0 \<longleftrightarrow> f a \<le> f b)"
  shows "sorted (map f (sort_by cmp xs))"
  using assms
proof (induction xs)
  case Nil
  then show ?case by simp
next
  case (Cons x xs)
  have "sorted (map f (sort_by cmp xs))" using Cons by simp
  moreover have "\<forall>y \<in> set (sort_by cmp xs). (cmp x y \<le> 0 \<longleftrightarrow> f x \<le> f y)" using Cons.prems by simp
  ultimately show ?case by (simp add: sorted_insort_by)
qed

lemma OrderedSet_fold:
  fixes f :: "'a \<Rightarrow> nat"
  shows "set (foldl OrderedSet_add acc xs) = set acc \<union> set xs
    \<and> (distinct acc \<longrightarrow> distinct (foldl OrderedSet_add acc xs))
    \<and> (sorted (map f (acc @ xs)) \<longrightarrow> sorted (map f (foldl OrderedSet_add acc xs)))"
proof (induction xs arbitrary: acc)
  case Nil
  then show ?case by simp
next
  case (Cons x xs)
  let ?acc = "OrderedSet_add acc x"
  have s: "set ?acc = insert x (set acc)" by (auto simp: OrderedSet_add_def)
  have d: "distinct acc \<Longrightarrow> distinct ?acc" by (auto simp: OrderedSet_add_def)
  have o: "sorted (map f (acc @ x # xs)) \<Longrightarrow> sorted (map f (?acc @ xs))"
    by (auto simp: OrderedSet_add_def sorted_append)
  show ?case using Cons.IH [of ?acc] s d o by auto
qed

lemma set_toOrderedSet [simp]: "set (toOrderedSet xs) = set xs"
  using OrderedSet_fold [of "[]" xs] by (simp add: toOrderedSet_def)

lemma distinct_toOrderedSet [simp]: "distinct (toOrderedSet xs)"
  using OrderedSet_fold [of "[]" xs] by (simp add: toOrderedSet_def)

lemma sorted_toOrderedSet:
  fixes f :: "'a \<Rightarrow> nat"
  shows "sorted (map f xs) \<Longrightarrow> sorted (map f (toOrderedSet xs))"
  using OrderedSet_fold [of "[]" xs f] by (simp add: toOrderedSet_def)

lemma findIndexGaps_loop_chain:
  "chain nxt idxs \<Longrightarrow> distinct idxs \<Longrightarrow> p \<le> q \<Longrightarrow> q < length idxs \<Longrightarrow>
   findIndexGaps_loop nxt T (idxs ! q) acc (idxs ! p)
   = Some (acc @ filter (\<lambda>x. x \<notin> set T) (map (nth idxs) [Suc p..<Suc q]))"
proof (induction "q - p" arbitrary: p acc)
  case 0
  then show ?case by (subst findIndexGaps_loop.simps) simp
next
  case (Suc d)
  then have lt: "p < q" by simp
  have ne: "idxs ! p \<noteq> idxs ! q" using lt Suc.prems by (simp add: nth_eq_iff_index_eq)
  have n: "nxt (idxs ! p) = Some (idxs ! Suc p)" using Suc.prems lt by (intro chain_nth) auto
  let ?acc = "if idxs ! Suc p \<notin> set T then acc @ [idxs ! Suc p] else acc"
  have IH: "findIndexGaps_loop nxt T (idxs ! q) ?acc (idxs ! Suc p)
        = Some (?acc @ filter (\<lambda>x. x \<notin> set T) (map (nth idxs) [Suc (Suc p)..<Suc q]))"
    using Suc lt by (intro Suc.hyps(1)) auto
  have up: "[Suc p..<Suc q] = Suc p # [Suc (Suc p)..<Suc q]" using lt by (simp add: upt_conv_Cons)
  have "findIndexGaps_loop nxt T (idxs ! q) acc (idxs ! p)
        = findIndexGaps_loop nxt T (idxs ! q) ?acc (idxs ! Suc p)"
    using ne n by (subst findIndexGaps_loop.simps) simp
  then show ?case unfolding IH up by simp
qed

lemma sorted_hd_last:
  fixes f :: "'a \<Rightarrow> nat"
  assumes "sorted (map f xs)" "x \<in> set xs"
  shows "f (hd xs) \<le> f x \<and> f x \<le> f (last xs)"
proof -
  have ne: "xs \<noteq> []" using assms(2) by auto
  have "sorted (map f (hd xs # tl xs))" using assms(1) ne by simp
  then have a: "\<forall>y \<in> set (tl xs). f (hd xs) \<le> f y" by simp
  have "x = hd xs \<or> x \<in> set (tl xs)" using assms(2) ne by (cases xs) auto
  then have 1: "f (hd xs) \<le> f x" using a by auto
  have "sorted (map f (butlast xs @ [last xs]))" using assms(1) ne by simp
  then have b: "\<forall>y \<in> set (butlast xs). f y \<le> f (last xs)" by (simp add: sorted_append)
  have "set xs = set (butlast xs @ [last xs])" using ne by simp
  then have "x = last xs \<or> x \<in> set (butlast xs)" using assms(2) by auto
  then have 2: "f x \<le> f (last xs)" using b by auto
  show ?thesis using 1 2 by simp
qed

lemma gaps_on_axis:
  fixes proj :: "'a \<Rightarrow> 'i"
  assumes ch: "chain nxt idxs" and di: "distinct idxs" and ne: "cs \<noteq> []"
    and on: "\<forall>c \<in> set cs. proj c \<in> set idxs"
    and cons: "\<forall>a \<in> set cs. \<forall>b \<in> set cs.
                 (cmp a b \<le> 0 \<longleftrightarrow> the (keyOf idxs (proj a)) \<le> the (keyOf idxs (proj b)))"
  shows "\<exists>lo hi. lo \<le> hi \<and> hi < length idxs
      \<and> idxs ! lo \<in> proj ` set cs \<and> idxs ! hi \<in> proj ` set cs
      \<and> (\<forall>x \<in> proj ` set cs. \<exists>k. lo \<le> k \<and> k \<le> hi \<and> x = idxs ! k)
      \<and> findIndexGaps (toOrderedSet (map proj (sort_by cmp cs))) nxt
          = Some (filter (\<lambda>x. x \<notin> proj ` set cs) (map (nth idxs) [Suc lo..<Suc hi]))"
proof -
  define rk where "rk = (\<lambda>x. the (keyOf idxs x))"
  define T where "T = toOrderedSet (map proj (sort_by cmp cs))"
  have sT: "set T = proj ` set cs" by (simp add: T_def)
  have "sorted (map (\<lambda>c. rk (proj c)) (sort_by cmp cs))"
    using cons by (intro sorted_sort_by) (simp add: rk_def)
  then have "sorted (map rk (map proj (sort_by cmp cs)))" by (simp add: comp_def)
  then have so: "sorted (map rk T)" unfolding T_def by (rule sorted_toOrderedSet)
  have Tne: "T \<noteq> []" using sT ne by auto
  have rk1: "rk x < length idxs \<and> idxs ! rk x = x" if xT: "x \<in> set T" for x
  proof -
    have "x \<in> set idxs" using xT sT on by auto
    then show ?thesis using keyOf_Some [of x idxs] by (auto simp: rk_def)
  qed
  define lo where "lo = rk (hd T)"
  define hi where "hi = rk (last T)"
  have hdT: "hd T \<in> set T" and lastT: "last T \<in> set T" using Tne by simp_all
  have bounds: "lo \<le> rk x \<and> rk x \<le> hi" if "x \<in> set T" for x
    unfolding lo_def hi_def using so that by (rule sorted_hd_last)
  have lohi: "lo \<le> hi" using bounds [OF lastT] by (simp add: hi_def)
  have hil: "hi < length idxs" using rk1 [OF lastT] by (simp add: hi_def)
  have ilo: "idxs ! lo = hd T" using rk1 [OF hdT] by (simp add: lo_def)
  have ihi: "idxs ! hi = last T" using rk1 [OF lastT] by (simp add: hi_def)
  have cover: "\<forall>x \<in> proj ` set cs. \<exists>k. lo \<le> k \<and> k \<le> hi \<and> x = idxs ! k"
  proof
    fix x assume "x \<in> proj ` set cs"
    then have xT: "x \<in> set T" using sT by simp
    show "\<exists>k. lo \<le> k \<and> k \<le> hi \<and> x = idxs ! k"
      using bounds [OF xT] rk1 [OF xT] by (intro exI [of _ "rk x"]) simp
  qed
  have res: "findIndexGaps T nxt = Some (filter (\<lambda>x. x \<notin> set T) (map (nth idxs) [Suc lo..<Suc hi]))"
  proof (cases "length T \<le> 1")
    case True
    then obtain t where "T = [t]" using Tne by (cases T) auto
    then have "lo = hi" by (simp add: lo_def hi_def)
    then show ?thesis using True by (simp add: findIndexGaps_def)
  next
    case False
    have "findIndexGaps T nxt = findIndexGaps_loop nxt T (idxs ! hi) [] (idxs ! lo)"
      using False Tne by (simp add: findIndexGaps_def ilo ihi)
    also have "\<dots> = Some ([] @ filter (\<lambda>x. x \<notin> set T) (map (nth idxs) [Suc lo..<Suc hi]))"
      using ch di lohi hil by (rule findIndexGaps_loop_chain)
    finally show ?thesis by simp
  qed
  have "lo \<le> hi \<and> hi < length idxs
      \<and> idxs ! lo \<in> proj ` set cs \<and> idxs ! hi \<in> proj ` set cs
      \<and> (\<forall>x \<in> proj ` set cs. \<exists>k. lo \<le> k \<and> k \<le> hi \<and> x = idxs ! k)
      \<and> findIndexGaps (toOrderedSet (map proj (sort_by cmp cs))) nxt
          = Some (filter (\<lambda>x. x \<notin> proj ` set cs) (map (nth idxs) [Suc lo..<Suc hi]))"
    using lohi hil ilo ihi hdT lastT cover res unfolding sT [symmetric] T_def [symmetric] by simp
  then show ?thesis by blast
qed

lemma gaps_closed_on_axis:
  fixes proj :: "'a \<Rightarrow> 'i"
  assumes ch: "chain nxt idxs" and di: "distinct idxs" and ne: "cs \<noteq> []"
    and on: "\<forall>c \<in> set cs. proj c \<in> set idxs"
    and cons: "\<forall>a \<in> set cs. \<forall>b \<in> set cs.
                 (cmp a b \<le> 0 \<longleftrightarrow> the (keyOf idxs (proj a)) \<le> the (keyOf idxs (proj b)))"
  shows "\<exists>g. findIndexGaps (toOrderedSet (map proj (sort_by cmp cs))) nxt = Some g
      \<and> set g \<subseteq> set idxs
      \<and> (\<forall>ms. ms \<noteq> [] \<longrightarrow> proj ` set ms = proj ` set cs \<union> set g \<longrightarrow>
             (\<forall>a \<in> set ms. \<forall>b \<in> set ms.
                 (cmp a b \<le> 0 \<longleftrightarrow> the (keyOf idxs (proj a)) \<le> the (keyOf idxs (proj b)))) \<longrightarrow>
             findIndexGaps (toOrderedSet (map proj (sort_by cmp ms))) nxt = Some [])"
proof -
  obtain lo hi where lh: "lo \<le> hi" "hi < length idxs"
    and cover: "\<forall>x \<in> proj ` set cs. \<exists>k. lo \<le> k \<and> k \<le> hi \<and> x = idxs ! k"
    and res: "findIndexGaps (toOrderedSet (map proj (sort_by cmp cs))) nxt
          = Some (filter (\<lambda>x. x \<notin> proj ` set cs) (map (nth idxs) [Suc lo..<Suc hi]))"
    using gaps_on_axis [OF ch di ne on cons] by blast
  define g where "g = filter (\<lambda>x. x \<notin> proj ` set cs) (map (nth idxs) [Suc lo..<Suc hi])"
  have gsub: "set g \<subseteq> set idxs" using lh by (auto simp: g_def)
  have gcover: "\<forall>x \<in> set g. \<exists>k. lo \<le> k \<and> k \<le> hi \<and> x = idxs ! k"
  proof
    fix x assume "x \<in> set g"
    then obtain k where k: "k \<in> set [Suc lo..<Suc hi]" "x = idxs ! k" by (auto simp: g_def)
    then have "lo \<le> k \<and> k \<le> hi \<and> x = idxs ! k" by auto
    then show "\<exists>k. lo \<le> k \<and> k \<le> hi \<and> x = idxs ! k" by blast
  qed
  have closed: "findIndexGaps (toOrderedSet (map proj (sort_by cmp ms))) nxt = Some []"
    if mne: "ms \<noteq> []" and pm: "proj ` set ms = proj ` set cs \<union> set g"
      and mcons: "\<forall>a \<in> set ms. \<forall>b \<in> set ms.
                 (cmp a b \<le> 0 \<longleftrightarrow> the (keyOf idxs (proj a)) \<le> the (keyOf idxs (proj b)))"
    for ms
  proof -
    have mon: "\<forall>c \<in> set ms. proj c \<in> set idxs"
    proof
      fix c assume "c \<in> set ms"
      then have "proj c \<in> proj ` set cs \<union> set g" using pm by blast
      then consider "proj c \<in> proj ` set cs" | "proj c \<in> set g" by blast
      then show "proj c \<in> set idxs"
      proof cases
        case 1
        then obtain c' where c': "c' \<in> set cs" "proj c = proj c'" by blast
        have "proj c' \<in> set idxs" using on c'(1) by (rule bspec)
        then show ?thesis by (simp only: c'(2))
      next
        case 2
        show ?thesis using gsub 2 by (rule subsetD)
      qed
    qed
    obtain lo' hi' where lh': "lo' \<le> hi'" "hi' < length idxs"
      and ends: "idxs ! lo' \<in> proj ` set ms" "idxs ! hi' \<in> proj ` set ms"
      and res': "findIndexGaps (toOrderedSet (map proj (sort_by cmp ms))) nxt
          = Some (filter (\<lambda>x. x \<notin> proj ` set ms) (map (nth idxs) [Suc lo'..<Suc hi']))"
      using gaps_on_axis [OF ch di mne mon mcons] by blast
    have within: "lo \<le> k \<and> k \<le> hi" if k: "k < length idxs" "idxs ! k \<in> proj ` set ms" for k
    proof -
      obtain k' where k': "lo \<le> k'" "k' \<le> hi" "idxs ! k = idxs ! k'"
        using k(2) pm cover gcover by (metis Un_iff)
      have "k = k'" using k' k(1) lh di by (simp add: nth_eq_iff_index_eq)
      then show ?thesis using k' by simp
    qed
    have lo': "lo \<le> lo'" using within [of lo'] ends(1) lh' by simp
    have hi': "hi' \<le> hi" using within [of hi'] ends(2) lh' by simp
    have "idxs ! k \<in> proj ` set ms" if k: "Suc lo' \<le> k" "k < Suc hi'" for k
    proof (cases "idxs ! k \<in> proj ` set cs")
      case True
      then show ?thesis using pm by simp
    next
      case False
      have "Suc lo \<le> k" "k < Suc hi" using k lo' hi' by linarith+
      then have "k \<in> set [Suc lo..<Suc hi]" by (simp only: set_upt atLeastLessThan_iff)
      then have "idxs ! k \<in> (nth idxs) ` set [Suc lo..<Suc hi]" by (rule imageI)
      then have "idxs ! k \<in> set g" using False unfolding g_def set_filter set_map by blast
      then show ?thesis using pm by simp
    qed
    then have "filter (\<lambda>x. x \<notin> proj ` set ms) (map (nth idxs) [Suc lo'..<Suc hi']) = []"
      by (auto simp: filter_empty_conv)
    then show ?thesis using res' by simp
  qed
  show ?thesis using res gsub closed unfolding g_def [symmetric] by blast
qed

lemma rank_on_axis:
  assumes "distinct idxs" "x \<in> set idxs"
  shows "the (keyOf idxs x) < length idxs \<and> idxs ! the (keyOf idxs x) = x"
  using keyOf_Some [OF assms(2)] by auto

lemma sorter_same_row:
  assumes g: "grid nav cols rows" and a: "on_grid cols rows a" and b: "on_grid cols rows b"
    and r: "rowIndex a = rowIndex b"
  shows "createCoordinatesSorter nav a b \<le> 0
         \<longleftrightarrow> the (keyOf cols (columnIndex a)) \<le> the (keyOf cols (columnIndex b))"
proof -
  have dc: "distinct cols" and dr: "distinct rows"
    using g by (auto simp: grid_def axis_def ordered_by_distinct)
  let ?ia = "the (keyOf cols (columnIndex a))" and ?ib = "the (keyOf cols (columnIndex b))"
  let ?ja = "the (keyOf rows (rowIndex a))"
  have ia: "?ia < length cols \<and> cols ! ?ia = columnIndex a"
    using a by (intro rank_on_axis [OF dc]) (simp add: on_grid_def)
  have ib: "?ib < length cols \<and> cols ! ?ib = columnIndex b"
    using b by (intro rank_on_axis [OF dc]) (simp add: on_grid_def)
  have ja: "?ja < length rows \<and> rows ! ?ja = rowIndex a"
    using a by (intro rank_on_axis [OF dr]) (simp add: on_grid_def)
  have ea: "a = Coordinate (cols ! ?ia) (rows ! ?ja)" using ia ja by (cases a) simp
  have eb: "b = Coordinate (cols ! ?ib) (rows ! ?ja)" using ib ja r by (cases b) simp
  have "0 < createCoordinatesSorter nav (Coordinate (cols ! ?ia) (rows ! ?ja)) (Coordinate (cols ! ?ib) (rows ! ?ja))
        \<longleftrightarrow> ?ja < ?ja \<or> (?ja = ?ja \<and> ?ib < ?ia)"
    using ia ib ja by (intro sorter_on_grid [OF g]) simp_all
  then have "0 < createCoordinatesSorter nav a b \<longleftrightarrow> ?ib < ?ia"
    using ea eb by simp
  then show ?thesis by linarith
qed

lemma sorter_same_column:
  assumes g: "grid nav cols rows" and a: "on_grid cols rows a" and b: "on_grid cols rows b"
    and c: "columnIndex a = columnIndex b"
  shows "createCoordinatesSorter nav a b \<le> 0
         \<longleftrightarrow> the (keyOf rows (rowIndex a)) \<le> the (keyOf rows (rowIndex b))"
proof -
  have dc: "distinct cols" and dr: "distinct rows"
    using g by (auto simp: grid_def axis_def ordered_by_distinct)
  let ?ja = "the (keyOf rows (rowIndex a))" and ?jb = "the (keyOf rows (rowIndex b))"
  let ?ia = "the (keyOf cols (columnIndex a))"
  have ia: "?ia < length cols \<and> cols ! ?ia = columnIndex a"
    using a by (intro rank_on_axis [OF dc]) (simp add: on_grid_def)
  have ja: "?ja < length rows \<and> rows ! ?ja = rowIndex a"
    using a by (intro rank_on_axis [OF dr]) (simp add: on_grid_def)
  have jb: "?jb < length rows \<and> rows ! ?jb = rowIndex b"
    using b by (intro rank_on_axis [OF dr]) (simp add: on_grid_def)
  have ea: "a = Coordinate (cols ! ?ia) (rows ! ?ja)" using ia ja by (cases a) simp
  have eb: "b = Coordinate (cols ! ?ia) (rows ! ?jb)" using ia jb c by (cases b) simp
  have "0 < createCoordinatesSorter nav (Coordinate (cols ! ?ia) (rows ! ?ja)) (Coordinate (cols ! ?ia) (rows ! ?jb))
        \<longleftrightarrow> ?jb < ?ja \<or> (?ja = ?jb \<and> ?ia < ?ia)"
    using ia ja jb by (intro sorter_on_grid [OF g]) simp_all
  then have "0 < createCoordinatesSorter nav a b \<longleftrightarrow> ?jb < ?ja"
    using ea eb by simp
  then show ?thesis by linarith
qed

lemma run_from_segment:
  "chain nxt idxs \<Longrightarrow> j0 < length idxs \<Longrightarrow> j0 + k \<le> length idxs \<Longrightarrow>
   run_from nxt (idxs ! j0) k = Some (map (nth idxs) [j0..<j0 + k])"
proof (induction k arbitrary: j0)
  case 0
  then show ?case by simp
next
  case (Suc k)
  show ?case
  proof (cases k)
    case 0
    then show ?thesis by simp
  next
    case (Suc k')
    have lt: "Suc j0 < length idxs" using Suc.prems(3) Suc by simp
    have n: "nxt (idxs ! j0) = Some (idxs ! Suc j0)" using Suc.prems(1) lt by (rule chain_nth)
    have IH: "run_from nxt (idxs ! Suc j0) k = Some (map (nth idxs) [Suc j0..<Suc j0 + k])"
      using Suc.prems(1) lt Suc.prems(3) by (intro Suc.IH) simp_all
    have up: "[j0..<j0 + Suc k] = j0 # [Suc j0..<Suc j0 + k]" by (simp add: upt_conv_Cons)
    show ?thesis unfolding up using n IH by (simp add: Suc)
  qed
qed

lemma findAlignmentGaps_horizontal:
  assumes g: "grid nav cols rows" and on: "\<forall>c \<in> set (coordinates al). on_grid cols rows c"
    and len: "1 < length (coordinates al)" and dir: "direction al = HORIZONTAL"
    and fixed: "\<forall>c \<in> set (coordinates al). rowIndex c = r"
  shows "\<exists>gaps first lst n cells.
           findAlignmentGaps nav al = Some gaps
           \<and> first \<in> set (coordinates al) \<and> lst \<in> set (coordinates al)
           \<and> run_cells nav (direction al) first n = Some cells
           \<and> cells \<noteq> [] \<and> last cells = lst
           \<and> set (coordinates al) \<subseteq> set cells
           \<and> gaps = filter (\<lambda>c. c \<notin> set (coordinates al)) cells
           \<and> (\<forall>merged. set merged = set (coordinates al) \<union> set gaps \<longrightarrow>
                 findAlignmentGaps nav (al\<lparr>coordinates := merged\<rparr>) = Some [])"
proof -
  let ?cs = "coordinates al"
  let ?cmp = "createCoordinatesSorter nav"
  let ?nxt = "findNextColumnIndex nav"
  let ?mk = "\<lambda>x. Coordinate x r"
  have ch: "chain ?nxt cols" and di: "distinct cols"
    using g by (auto simp: grid_def axis_def ordered_by_distinct)
  have ne: "?cs \<noteq> []" using len by auto
  have onp: "\<forall>c \<in> set ?cs. columnIndex c \<in> set cols" using on by (simp add: on_grid_def)
  have cons: "\<forall>a \<in> set ?cs. \<forall>b \<in> set ?cs.
     (?cmp a b \<le> 0 \<longleftrightarrow> the (keyOf cols (columnIndex a)) \<le> the (keyOf cols (columnIndex b)))"
  proof (intro ballI)
    fix a b assume "a \<in> set ?cs" "b \<in> set ?cs"
    then show "?cmp a b \<le> 0 \<longleftrightarrow> the (keyOf cols (columnIndex a)) \<le> the (keyOf cols (columnIndex b))"
      using on fixed by (intro sorter_same_row [OF g]) auto
  qed
  obtain gi where gi: "findIndexGaps (toOrderedSet (map columnIndex (sort_by ?cmp ?cs))) ?nxt = Some gi"
    and gsub: "set gi \<subseteq> set cols"
    and closed: "\<And>ms. ms \<noteq> [] \<Longrightarrow> columnIndex ` set ms = columnIndex ` set ?cs \<union> set gi \<Longrightarrow>
             (\<forall>a \<in> set ms. \<forall>b \<in> set ms.
                 (?cmp a b \<le> 0 \<longleftrightarrow> the (keyOf cols (columnIndex a)) \<le> the (keyOf cols (columnIndex b)))) \<Longrightarrow>
             findIndexGaps (toOrderedSet (map columnIndex (sort_by ?cmp ms))) ?nxt = Some []"
    using gaps_closed_on_axis [OF ch di ne onp cons] by blast
  have f0: "rowIndex (hd ?cs) = r" using fixed ne by simp
  have "on_grid cols rows (hd ?cs)" using on hd_in_set [OF ne] by blast
  then have fin: "r \<in> set rows" using f0 by (simp add: on_grid_def)
  define gaps where "gaps = map ?mk gi"
  have fg: "findAlignmentGaps nav al = Some gaps"
    using len by (simp add: findAlignmentGaps_def dir gi f0 gaps_def)
  have cl: "findAlignmentGaps nav (al\<lparr>coordinates := merged\<rparr>) = Some []"
    if m: "set merged = set ?cs \<union> set gaps" for merged
  proof (cases "length merged \<le> 1")
    case True
    then show ?thesis by (simp add: findAlignmentGaps_def)
  next
    case False
    then have mne: "merged \<noteq> []" by auto
    have mfixed: "\<forall>c \<in> set merged. rowIndex c = r" using m fixed by (auto simp: gaps_def)
    have mon: "\<forall>c \<in> set merged. on_grid cols rows c"
      using m on gsub fin by (auto simp: gaps_def on_grid_def)
    have mp: "columnIndex ` set merged = columnIndex ` set ?cs \<union> set gi"
      unfolding m by (auto simp: gaps_def image_Un image_image)
    have mcons: "\<forall>a \<in> set merged. \<forall>b \<in> set merged.
       (?cmp a b \<le> 0 \<longleftrightarrow> the (keyOf cols (columnIndex a)) \<le> the (keyOf cols (columnIndex b)))"
    proof (intro ballI)
      fix a b assume "a \<in> set merged" "b \<in> set merged"
      then show "?cmp a b \<le> 0 \<longleftrightarrow> the (keyOf cols (columnIndex a)) \<le> the (keyOf cols (columnIndex b))"
        using mon mfixed by (intro sorter_same_row [OF g]) auto
    qed
    have "findIndexGaps (toOrderedSet (map columnIndex (sort_by ?cmp merged))) ?nxt = Some []"
      using mne mp mcons by (rule closed)
    then show ?thesis using False by (simp add: findAlignmentGaps_def dir)
  qed
  obtain lo hi where lh: "lo \<le> hi" "hi < length cols"
    and elo: "cols ! lo \<in> columnIndex ` set ?cs" and ehi: "cols ! hi \<in> columnIndex ` set ?cs"
    and cover: "\<forall>x \<in> columnIndex ` set ?cs. \<exists>k. lo \<le> k \<and> k \<le> hi \<and> x = cols ! k"
    and res: "findIndexGaps (toOrderedSet (map columnIndex (sort_by ?cmp ?cs))) ?nxt
          = Some (filter (\<lambda>x. x \<notin> columnIndex ` set ?cs) (map (nth cols) [Suc lo..<Suc hi]))"
    using gaps_on_axis [OF ch di ne onp cons] by blast
  have gie: "gi = filter (\<lambda>x. x \<notin> columnIndex ` set ?cs) (map (nth cols) [Suc lo..<Suc hi])"
    using gi res by simp
  obtain first where first: "first \<in> set ?cs" "columnIndex first = cols ! lo" using elo by auto
  obtain lst where lst: "lst \<in> set ?cs" "columnIndex lst = cols ! hi" using ehi by auto
  have ffix: "rowIndex first = r" and lfix: "rowIndex lst = r" using fixed first(1) lst(1) by auto
  define xs where "xs = map (nth cols) [lo..<Suc hi]"
  have "run_from ?nxt (cols ! lo) (Suc hi - lo) = Some (map (nth cols) [lo..<lo + (Suc hi - lo)])"
    using ch lh by (intro run_from_segment) auto
  then have run: "run_from ?nxt (cols ! lo) (Suc hi - lo) = Some xs" using lh by (simp add: xs_def)
  have up: "[lo..<Suc hi] = lo # [Suc lo..<Suc hi]" using lh by (simp add: upt_conv_Cons)
  have xse: "xs = cols ! lo # map (nth cols) [Suc lo..<Suc hi]" unfolding xs_def up by simp
  have xne: "xs \<noteq> []" by (simp add: xse)
  have "last xs = cols ! last [lo..<Suc hi]" unfolding xs_def using lh by (intro last_map) simp
  then have lastxs: "last xs = cols ! hi" using lh by simp
  define cells where "cells = map ?mk xs"
  have rc: "run_cells nav (direction al) first (Suc hi - lo) = Some cells"
    using run by (simp add: run_cells_def dir first(2) ffix cells_def)
  have cne: "cells \<noteq> []" using xne by (simp add: cells_def)
  have "last cells = ?mk (last xs)" unfolding cells_def using xne by (rule last_map)
  then have lc: "last cells = lst" using lastxs lst(2) lfix by (cases lst) simp
  have mem: "?mk x \<in> set ?cs \<longleftrightarrow> x \<in> columnIndex ` set ?cs" for x
  proof
    assume "?mk x \<in> set ?cs"
    then have "columnIndex (?mk x) \<in> columnIndex ` set ?cs" by (rule imageI)
    then show "x \<in> columnIndex ` set ?cs" by simp
  next
    assume "x \<in> columnIndex ` set ?cs"
    then obtain c where c: "c \<in> set ?cs" "x = columnIndex c" by blast
    have "rowIndex c = r" using fixed c(1) by (rule bspec)
    then have "c = ?mk x" using c(2) by (cases c) simp
    then show "?mk x \<in> set ?cs" using c(1) by simp
  qed
  have sub: "set ?cs \<subseteq> set cells"
  proof
    fix c assume c: "c \<in> set ?cs"
    have "columnIndex c \<in> columnIndex ` set ?cs" using c by (rule imageI)
    then obtain j where j: "lo \<le> j" "j \<le> hi" "columnIndex c = cols ! j" using cover by blast
    have "lo \<le> j \<and> j < Suc hi" using j(1,2) by linarith
    then have "j \<in> set [lo..<Suc hi]" by (simp only: set_upt atLeastLessThan_iff)
    then have "cols ! j \<in> set xs" unfolding xs_def set_map by (rule imageI)
    then have "?mk (cols ! j) \<in> set cells" unfolding cells_def set_map by (rule imageI)
    moreover have "rowIndex c = r" using fixed c by (rule bspec)
    then have "c = ?mk (cols ! j)" using j(3) by (cases c) simp
    ultimately show "c \<in> set cells" by simp
  qed
  have "filter (\<lambda>c. c \<notin> set ?cs) cells = map ?mk (filter (\<lambda>x. x \<notin> columnIndex ` set ?cs) xs)"
    unfolding cells_def filter_map comp_def mem by (rule refl)
  also have "filter (\<lambda>x. x \<notin> columnIndex ` set ?cs) xs = gi"
    unfolding xse gie using elo by simp
  finally have ge: "gaps = filter (\<lambda>c. c \<notin> set ?cs) cells" by (simp add: gaps_def)
  show ?thesis using fg first(1) lst(1) rc cne lc sub ge cl by blast
qed

lemma findAlignmentGaps_vertical:
  assumes g: "grid nav cols rows" and on: "\<forall>c \<in> set (coordinates al). on_grid cols rows c"
    and len: "1 < length (coordinates al)" and dir: "direction al = VERTICAL"
    and fixed: "\<forall>c \<in> set (coordinates al). columnIndex c = k"
  shows "\<exists>gaps first lst n cells.
           findAlignmentGaps nav al = Some gaps
           \<and> first \<in> set (coordinates al) \<and> lst \<in> set (coordinates al)
           \<and> run_cells nav (direction al) first n = Some cells
           \<and> cells \<noteq> [] \<and> last cells = lst
           \<and> set (coordinates al) \<subseteq> set cells
           \<and> gaps = filter (\<lambda>c. c \<notin> set (coordinates al)) cells
           \<and> (\<forall>merged. set merged = set (coordinates al) \<union> set gaps \<longrightarrow>
                 findAlignmentGaps nav (al\<lparr>coordinates := merged\<rparr>) = Some [])"
proof -
  let ?cs = "coordinates al"
  let ?cmp = "createCoordinatesSorter nav"
  let ?nxt = "findNextRowIndex nav"
  let ?mk = "\<lambda>y. Coordinate k y"
  have ch: "chain ?nxt rows" and di: "distinct rows"
    using g by (auto simp: grid_def axis_def ordered_by_distinct)
  have ne: "?cs \<noteq> []" using len by auto
  have onp: "\<forall>c \<in> set ?cs. rowIndex c \<in> set rows" using on by (simp add: on_grid_def)
  have cons: "\<forall>a \<in> set ?cs. \<forall>b \<in> set ?cs.
     (?cmp a b \<le> 0 \<longleftrightarrow> the (keyOf rows (rowIndex a)) \<le> the (keyOf rows (rowIndex b)))"
  proof (intro ballI)
    fix a b assume "a \<in> set ?cs" "b \<in> set ?cs"
    then show "?cmp a b \<le> 0 \<longleftrightarrow> the (keyOf rows (rowIndex a)) \<le> the (keyOf rows (rowIndex b))"
      using on fixed by (intro sorter_same_column [OF g]) auto
  qed
  obtain gi where gi: "findIndexGaps (toOrderedSet (map rowIndex (sort_by ?cmp ?cs))) ?nxt = Some gi"
    and gsub: "set gi \<subseteq> set rows"
    and closed: "\<And>ms. ms \<noteq> [] \<Longrightarrow> rowIndex ` set ms = rowIndex ` set ?cs \<union> set gi \<Longrightarrow>
             (\<forall>a \<in> set ms. \<forall>b \<in> set ms.
                 (?cmp a b \<le> 0 \<longleftrightarrow> the (keyOf rows (rowIndex a)) \<le> the (keyOf rows (rowIndex b)))) \<Longrightarrow>
             findIndexGaps (toOrderedSet (map rowIndex (sort_by ?cmp ms))) ?nxt = Some []"
    using gaps_closed_on_axis [OF ch di ne onp cons] by blast
  have f0: "columnIndex (hd ?cs) = k" using fixed ne by simp
  have "on_grid cols rows (hd ?cs)" using on hd_in_set [OF ne] by blast
  then have fin: "k \<in> set cols" using f0 by (simp add: on_grid_def)
  define gaps where "gaps = map ?mk gi"
  have fg: "findAlignmentGaps nav al = Some gaps"
    using len by (simp add: findAlignmentGaps_def dir gi f0 gaps_def)
  have cl: "findAlignmentGaps nav (al\<lparr>coordinates := merged\<rparr>) = Some []"
    if m: "set merged = set ?cs \<union> set gaps" for merged
  proof (cases "length merged \<le> 1")
    case True
    then show ?thesis by (simp add: findAlignmentGaps_def)
  next
    case False
    then have mne: "merged \<noteq> []" by auto
    have mfixed: "\<forall>c \<in> set merged. columnIndex c = k" using m fixed by (auto simp: gaps_def)
    have mon: "\<forall>c \<in> set merged. on_grid cols rows c"
      using m on gsub fin by (auto simp: gaps_def on_grid_def)
    have mp: "rowIndex ` set merged = rowIndex ` set ?cs \<union> set gi"
      unfolding m by (auto simp: gaps_def image_Un image_image)
    have mcons: "\<forall>a \<in> set merged. \<forall>b \<in> set merged.
       (?cmp a b \<le> 0 \<longleftrightarrow> the (keyOf rows (rowIndex a)) \<le> the (keyOf rows (rowIndex b)))"
    proof (intro ballI)
      fix a b assume "a \<in> set merged" "b \<in> set merged"
      then show "?cmp a b \<le> 0 \<longleftrightarrow> the (keyOf rows (rowIndex a)) \<le> the (keyOf rows (rowIndex b))"
        using mon mfixed by (intro sorter_same_column [OF g]) auto
    qed
    have "findIndexGaps (toOrderedSet (map rowIndex (sort_by ?cmp merged))) ?nxt = Some []"
      using mne mp mcons by (rule closed)
    then show ?thesis using False by (simp add: findAlignmentGaps_def dir)
  qed
  obtain lo hi where lh: "lo \<le> hi" "hi < length rows"
    and elo: "rows ! lo \<in> rowIndex ` set ?cs" and ehi: "rows ! hi \<in> rowIndex ` set ?cs"
    and cover: "\<forall>x \<in> rowIndex ` set ?cs. \<exists>k. lo \<le> k \<and> k \<le> hi \<and> x = rows ! k"
    and res: "findIndexGaps (toOrderedSet (map rowIndex (sort_by ?cmp ?cs))) ?nxt
          = Some (filter (\<lambda>x. x \<notin> rowIndex ` set ?cs) (map (nth rows) [Suc lo..<Suc hi]))"
    using gaps_on_axis [OF ch di ne onp cons] by blast
  have gie: "gi = filter (\<lambda>x. x \<notin> rowIndex ` set ?cs) (map (nth rows) [Suc lo..<Suc hi])"
    using gi res by simp
  obtain first where first: "first \<in> set ?cs" "rowIndex first = rows ! lo" using elo by auto
  obtain lst where lst: "lst \<in> set ?cs" "rowIndex lst = rows ! hi" using ehi by auto
  have ffix: "columnIndex first = k" and lfix: "columnIndex lst = k" using fixed first(1) lst(1) by auto
  define xs where "xs = map (nth rows) [lo..<Suc hi]"
  have "run_from ?nxt (rows ! lo) (Suc hi - lo) = Some (map (nth rows) [lo..<lo + (Suc hi - lo)])"
    using ch lh by (intro run_from_segment) auto
  then have run: "run_from ?nxt (rows ! lo) (Suc hi - lo) = Some xs" using lh by (simp add: xs_def)
  have up: "[lo..<Suc hi] = lo # [Suc lo..<Suc hi]" using lh by (simp add: upt_conv_Cons)
  have xse: "xs = rows ! lo # map (nth rows) [Suc lo..<Suc hi]" unfolding xs_def up by simp
  have xne: "xs \<noteq> []" by (simp add: xse)
  have "last xs = rows ! last [lo..<Suc hi]" unfolding xs_def using lh by (intro last_map) simp
  then have lastxs: "last xs = rows ! hi" using lh by simp
  define cells where "cells = map ?mk xs"
  have rc: "run_cells nav (direction al) first (Suc hi - lo) = Some cells"
    using run by (simp add: run_cells_def dir first(2) ffix cells_def)
  have cne: "cells \<noteq> []" using xne by (simp add: cells_def)
  have "last cells = ?mk (last xs)" unfolding cells_def using xne by (rule last_map)
  then have lc: "last cells = lst" using lastxs lst(2) lfix by (cases lst) simp
  have mem: "?mk x \<in> set ?cs \<longleftrightarrow> x \<in> rowIndex ` set ?cs" for x
  proof
    assume "?mk x \<in> set ?cs"
    then have "rowIndex (?mk x) \<in> rowIndex ` set ?cs" by (rule imageI)
    then show "x \<in> rowIndex ` set ?cs" by simp
  next
    assume "x \<in> rowIndex ` set ?cs"
    then obtain c where c: "c \<in> set ?cs" "x = rowIndex c" by blast
    have "columnIndex c = k" using fixed c(1) by (rule bspec)
    then have "c = ?mk x" using c(2) by (cases c) simp
    then show "?mk x \<in> set ?cs" using c(1) by simp
  qed
  have sub: "set ?cs \<subseteq> set cells"
  proof
    fix c assume c: "c \<in> set ?cs"
    have "rowIndex c \<in> rowIndex ` set ?cs" using c by (rule imageI)
    then obtain j where j: "lo \<le> j" "j \<le> hi" "rowIndex c = rows ! j" using cover by blast
    have "lo \<le> j \<and> j < Suc hi" using j(1,2) by linarith
    then have "j \<in> set [lo..<Suc hi]" by (simp only: set_upt atLeastLessThan_iff)
    then have "rows ! j \<in> set xs" unfolding xs_def set_map by (rule imageI)
    then have "?mk (rows ! j) \<in> set cells" unfolding cells_def set_map by (rule imageI)
    moreover have "columnIndex c = k" using fixed c by (rule bspec)
    then have "c = ?mk (rows ! j)" using j(3) by (cases c) simp
    ultimately show "c \<in> set cells" by simp
  qed
  have "filter (\<lambda>c. c \<notin> set ?cs) cells = map ?mk (filter (\<lambda>x. x \<notin> rowIndex ` set ?cs) xs)"
    unfolding cells_def filter_map comp_def mem by (rule refl)
  also have "filter (\<lambda>x. x \<notin> rowIndex ` set ?cs) xs = gi"
    unfolding xse gie using elo by simp
  finally have ge: "gaps = filter (\<lambda>c. c \<notin> set ?cs) cells" by (simp add: gaps_def)
  show ?thesis using fg first(1) lst(1) rc cne lc sub ge cl by blast
qed


text \<open>
  C7. On a well-formed grid, for coordinates of the grid and whatever the order in
  which the maps of more than eight entries iterate, \<open>findAlignments\<close> returns, and for
  every alignment it returns \<open>findAlignmentGaps\<close> returns as well. The cells of the
  contiguous run along the alignment's axis from one of its members, the first, to
  another, the last, hold every coordinate of the alignment, and the gaps returned are
  exactly the cells of that run that the alignment lacks, in the order of the run. So
  the coordinates of the alignment merged with the gaps are the cells of the run, and
  \<open>findAlignmentGaps\<close> of the merged alignment, in any arrangement, is the empty list.
\<close>

theorem findAlignmentGaps_fills_alignment:
  assumes g: "grid nav cols rows" and on: "\<forall>c \<in> set coords. on_grid cols rows c"
  shows "\<exists>als. findAlignments nav iteration coords maxDistance = Some als
           \<and> (\<forall>al \<in> set als. \<exists>gaps first lst n cells.
                 findAlignmentGaps nav al = Some gaps
                 \<and> first \<in> set (coordinates al) \<and> lst \<in> set (coordinates al)
                 \<and> run_cells nav (direction al) first n = Some cells
                 \<and> cells \<noteq> [] \<and> last cells = lst
                 \<and> set (coordinates al) \<subseteq> set cells
                 \<and> gaps = filter (\<lambda>c. c \<notin> set (coordinates al)) cells
                 \<and> set (coordinates al) \<union> set gaps = set cells
                 \<and> (\<forall>merged. set merged = set (coordinates al) \<union> set gaps \<longrightarrow>
                       findAlignmentGaps nav (al\<lparr>coordinates := merged\<rparr>) = Some []))"
proof -
  have "findAlignments nav iteration coords maxDistance \<noteq> None"
    using g on by (rule findAlignments_total_on_grid)
  then obtain als where fa: "findAlignments nav iteration coords maxDistance = Some als" by blast
  have "\<exists>gaps first lst n cells.
                 findAlignmentGaps nav al = Some gaps
                 \<and> first \<in> set (coordinates al) \<and> lst \<in> set (coordinates al)
                 \<and> run_cells nav (direction al) first n = Some cells
                 \<and> cells \<noteq> [] \<and> last cells = lst
                 \<and> set (coordinates al) \<subseteq> set cells
                 \<and> gaps = filter (\<lambda>c. c \<notin> set (coordinates al)) cells
                 \<and> set (coordinates al) \<union> set gaps = set cells
                 \<and> (\<forall>merged. set merged = set (coordinates al) \<union> set gaps \<longrightarrow>
                       findAlignmentGaps nav (al\<lparr>coordinates := merged\<rparr>) = Some [])"
    if al: "al \<in> set als" for al
  proof -
    have len: "1 < length (coordinates al)" using findAlignments_member_props(1) [OF fa al] by simp
    have ong: "\<forall>c \<in> set (coordinates al). on_grid cols rows c"
      using findAlignments_member_props(2) [OF fa al] on by blast
    have "\<exists>gaps first lst n cells.
           findAlignmentGaps nav al = Some gaps
           \<and> first \<in> set (coordinates al) \<and> lst \<in> set (coordinates al)
           \<and> run_cells nav (direction al) first n = Some cells
           \<and> cells \<noteq> [] \<and> last cells = lst
           \<and> set (coordinates al) \<subseteq> set cells
           \<and> gaps = filter (\<lambda>c. c \<notin> set (coordinates al)) cells
           \<and> (\<forall>merged. set merged = set (coordinates al) \<union> set gaps \<longrightarrow>
                 findAlignmentGaps nav (al\<lparr>coordinates := merged\<rparr>) = Some [])"
    proof (cases "direction al")
      case HORIZONTAL
      then obtain r where "\<forall>c \<in> set (coordinates al). rowIndex c = r"
        using findAlignments_member_props(3) [OF fa al] by blast
      then show ?thesis using g ong len HORIZONTAL by (intro findAlignmentGaps_horizontal)
    next
      case VERTICAL
      then obtain k where "\<forall>c \<in> set (coordinates al). columnIndex c = k"
        using findAlignments_member_props(4) [OF fa al] by blast
      then show ?thesis using g ong len VERTICAL by (intro findAlignmentGaps_vertical)
    qed
    then obtain gaps first lst n cells where p:
      "findAlignmentGaps nav al = Some gaps"
      "first \<in> set (coordinates al)" "lst \<in> set (coordinates al)"
      "run_cells nav (direction al) first n = Some cells"
      "cells \<noteq> []" "last cells = lst"
      "set (coordinates al) \<subseteq> set cells"
      "gaps = filter (\<lambda>c. c \<notin> set (coordinates al)) cells"
      "\<forall>merged. set merged = set (coordinates al) \<union> set gaps \<longrightarrow>
                 findAlignmentGaps nav (al\<lparr>coordinates := merged\<rparr>) = Some []"
      by blast
    have u: "set (coordinates al) \<union> set gaps = set cells" using p(7) unfolding p(8) by auto
    show ?thesis using p u by blast
  qed
  then show ?thesis using fa by blast
qed

theorem findAlignmentGaps_fills_alignment_witness:
  "grid exampleGrid exampleColumns exampleRows
   \<and> on_grid exampleColumns exampleRows (Coordinate ColA 1)
   \<and> on_grid exampleColumns exampleRows (Coordinate ColA 2)
   \<and> on_grid exampleColumns exampleRows (Coordinate ColA 3)
   \<and> on_grid exampleColumns exampleRows (Coordinate ColA 5)
   \<and> on_grid exampleColumns exampleRows (Coordinate ColE 1)
   \<and> findAlignments exampleGrid exampleIteration
         [Coordinate ColA 1, Coordinate ColA 2, Coordinate ColA 3, Coordinate ColA 5, Coordinate ColE 1] 4
       = Some [\<lparr>direction = HORIZONTAL, coordinates = [Coordinate ColA 1, Coordinate ColE 1]\<rparr>,
               \<lparr>direction = VERTICAL,
                  coordinates = [Coordinate ColA 1, Coordinate ColA 2, Coordinate ColA 3, Coordinate ColA 5]\<rparr>]
   \<and> findAlignmentGaps exampleGrid
         \<lparr>direction = VERTICAL,
            coordinates = [Coordinate ColA 1, Coordinate ColA 2, Coordinate ColA 3, Coordinate ColA 5]\<rparr>
       = Some [Coordinate ColA 4]
   \<and> run_cells exampleGrid VERTICAL (Coordinate ColA 1) 5
       = Some [Coordinate ColA 1, Coordinate ColA 2, Coordinate ColA 3, Coordinate ColA 4, Coordinate ColA 5]
   \<and> findAlignmentGaps exampleGrid
         \<lparr>direction = VERTICAL,
            coordinates = [Coordinate ColA 1, Coordinate ColA 2, Coordinate ColA 3, Coordinate ColA 5,
                           Coordinate ColA 4]\<rparr>
       = Some []
   \<and> findAlignmentGaps exampleGrid
         \<lparr>direction = HORIZONTAL, coordinates = [Coordinate ColA 1, Coordinate ColE 1]\<rparr>
       = Some [Coordinate ColB 1, Coordinate ColC 1, Coordinate ColD 1]
   \<and> run_cells exampleGrid HORIZONTAL (Coordinate ColA 1) 5
       = Some [Coordinate ColA 1, Coordinate ColB 1, Coordinate ColC 1, Coordinate ColD 1, Coordinate ColE 1]
   \<and> findAlignmentGaps exampleGrid
         \<lparr>direction = HORIZONTAL,
            coordinates = [Coordinate ColA 1, Coordinate ColE 1,
                           Coordinate ColB 1, Coordinate ColC 1, Coordinate ColD 1]\<rparr>
       = Some []"
proof -
  let ?cs = "[Coordinate ColA (1::nat), Coordinate ColA 2, Coordinate ColA 3, Coordinate ColA 5, Coordinate ColE 1]"
  let ?h = "\<lparr>direction = HORIZONTAL, coordinates = [Coordinate ColA (1::nat), Coordinate ColE 1]\<rparr>"
  let ?v = "\<lparr>direction = VERTICAL,
              coordinates = [Coordinate ColA (1::nat), Coordinate ColA 2, Coordinate ColA 3, Coordinate ColA 5]\<rparr>"
  have o: "on_grid exampleColumns exampleRows (Coordinate ColA 1)"
    "on_grid exampleColumns exampleRows (Coordinate ColA 2)"
    "on_grid exampleColumns exampleRows (Coordinate ColA 3)"
    "on_grid exampleColumns exampleRows (Coordinate ColA 5)"
    "on_grid exampleColumns exampleRows (Coordinate ColE 1)"
    by (simp_all add: on_grid_def exampleColumns_def exampleRows_def)
  have on: "\<forall>c \<in> set ?cs. on_grid exampleColumns exampleRows c" using o by simp
  have fa: "findAlignments exampleGrid exampleIteration ?cs 4 = Some [?h, ?v]"
    by code_simp
  have fv: "findAlignmentGaps exampleGrid ?v = Some [Coordinate ColA 4]"
    by code_simp
  have fh: "findAlignmentGaps exampleGrid ?h = Some [Coordinate ColB 1, Coordinate ColC 1, Coordinate ColD 1]"
    by code_simp
  have rv: "run_cells exampleGrid VERTICAL (Coordinate ColA 1) 5
       = Some [Coordinate ColA 1, Coordinate ColA 2, Coordinate ColA 3, Coordinate ColA 4, Coordinate ColA 5]"
    by (simp add: run_cells_def exampleGrid_def eval_nat_numeral)
  have rh: "run_cells exampleGrid HORIZONTAL (Coordinate ColA 1) 5
       = Some [Coordinate ColA 1, Coordinate ColB 1, Coordinate ColC 1, Coordinate ColD 1, Coordinate ColE 1]"
    by (simp add: run_cells_def exampleGrid_def eval_nat_numeral)
  have "\<exists>als. findAlignments exampleGrid exampleIteration ?cs 4 = Some als
           \<and> (\<forall>al \<in> set als. \<exists>gaps first lst n cells.
                 findAlignmentGaps exampleGrid al = Some gaps
                 \<and> first \<in> set (coordinates al) \<and> lst \<in> set (coordinates al)
                 \<and> run_cells exampleGrid (direction al) first n = Some cells
                 \<and> cells \<noteq> [] \<and> last cells = lst
                 \<and> set (coordinates al) \<subseteq> set cells
                 \<and> gaps = filter (\<lambda>c. c \<notin> set (coordinates al)) cells
                 \<and> set (coordinates al) \<union> set gaps = set cells
                 \<and> (\<forall>merged. set merged = set (coordinates al) \<union> set gaps \<longrightarrow>
                       findAlignmentGaps exampleGrid (al\<lparr>coordinates := merged\<rparr>) = Some []))"
    by (rule findAlignmentGaps_fills_alignment [OF exampleGrid_grid on])
  then obtain als where als: "findAlignments exampleGrid exampleIteration ?cs 4 = Some als"
    and each: "\<And>al. al \<in> set als \<Longrightarrow> \<exists>gaps first lst n cells.
                 findAlignmentGaps exampleGrid al = Some gaps
                 \<and> first \<in> set (coordinates al) \<and> lst \<in> set (coordinates al)
                 \<and> run_cells exampleGrid (direction al) first n = Some cells
                 \<and> cells \<noteq> [] \<and> last cells = lst
                 \<and> set (coordinates al) \<subseteq> set cells
                 \<and> gaps = filter (\<lambda>c. c \<notin> set (coordinates al)) cells
                 \<and> set (coordinates al) \<union> set gaps = set cells
                 \<and> (\<forall>merged. set merged = set (coordinates al) \<union> set gaps \<longrightarrow>
                       findAlignmentGaps exampleGrid (al\<lparr>coordinates := merged\<rparr>) = Some [])"
    by (elim exE conjE) (rule that, assumption, erule (1) bspec)
  have ae: "als = [?h, ?v]" using als fa by simp
  have vin: "?v \<in> set als" and hin: "?h \<in> set als" by (simp_all only: ae list.set insert_iff simp_thms)
  obtain gv where gv: "findAlignmentGaps exampleGrid ?v = Some gv"
    and cgv: "\<forall>merged. set merged = set (coordinates ?v) \<union> set gv \<longrightarrow>
                 findAlignmentGaps exampleGrid (?v\<lparr>coordinates := merged\<rparr>) = Some []"
    using each [OF vin] by (elim exE conjE) (rule that)
  obtain gh where gh: "findAlignmentGaps exampleGrid ?h = Some gh"
    and cgh: "\<forall>merged. set merged = set (coordinates ?h) \<union> set gh \<longrightarrow>
                 findAlignmentGaps exampleGrid (?h\<lparr>coordinates := merged\<rparr>) = Some []"
    using each [OF hin] by (elim exE conjE) (rule that)
  have gve: "gv = [Coordinate ColA 4]" using gv fv by simp
  have ghe: "gh = [Coordinate ColB 1, Coordinate ColC 1, Coordinate ColD 1]" using gh fh by simp
  have cv: "\<forall>merged. set merged = set (coordinates ?v) \<union> set [Coordinate ColA 4] \<longrightarrow>
                 findAlignmentGaps exampleGrid (?v\<lparr>coordinates := merged\<rparr>) = Some []"
    using cgv unfolding gve by (rule asm_rl)
  have chh: "\<forall>merged. set merged = set (coordinates ?h)
                 \<union> set [Coordinate ColB 1, Coordinate ColC 1, Coordinate ColD 1] \<longrightarrow>
                 findAlignmentGaps exampleGrid (?h\<lparr>coordinates := merged\<rparr>) = Some []"
    using cgh unfolding ghe by (rule asm_rl)
  have sv: "set [Coordinate ColA (1::nat), Coordinate ColA 2, Coordinate ColA 3, Coordinate ColA 5, Coordinate ColA 4]
            = set (coordinates ?v) \<union> set [Coordinate ColA 4]"
    by auto
  have sh: "set [Coordinate ColA (1::nat), Coordinate ColE 1, Coordinate ColB 1, Coordinate ColC 1, Coordinate ColD 1]
            = set (coordinates ?h) \<union> set [Coordinate ColB 1, Coordinate ColC 1, Coordinate ColD 1]"
    by auto
  have mv: "findAlignmentGaps exampleGrid
          \<lparr>direction = VERTICAL,
             coordinates = [Coordinate ColA 1, Coordinate ColA 2, Coordinate ColA 3, Coordinate ColA 5,
                            Coordinate ColA 4]\<rparr> = Some []"
    using cv [rule_format, OF sv] by simp
  have mh: "findAlignmentGaps exampleGrid
          \<lparr>direction = HORIZONTAL,
             coordinates = [Coordinate ColA 1, Coordinate ColE 1,
                            Coordinate ColB 1, Coordinate ColC 1, Coordinate ColD 1]\<rparr> = Some []"
    using chh [rule_format, OF sh] by simp
  show ?thesis using exampleGrid_grid o fa fv rv mv fh rh mh by (intro conjI)
qed

section \<open>Grid traversal on a well-formed grid\<close>

lemma findFirstIndex_loop_on_axis:
  "chain prv (rev idxs) \<Longrightarrow> i < length idxs \<Longrightarrow>
   findFirstIndex_loop prv p (Some (idxs ! i)) = Some (idxs ! 0)"
proof (induction i arbitrary: p)
  case 0
  have "prv (idxs ! 0) = None" using chain_previous_on_axis [OF 0(1), of 0] 0(2) by simp
  then have "findFirstIndex_loop prv (idxs ! 0) (prv (idxs ! 0)) = Some (idxs ! 0)"
    by (subst findFirstIndex_loop.simps) simp
  then show ?case by (subst findFirstIndex_loop.simps) simp
next
  case (Suc i)
  have "prv (idxs ! Suc i) = Some (idxs ! i)"
    using chain_previous_on_axis [OF Suc.prems(1), of "Suc i"] Suc.prems(2) by simp
  moreover have "findFirstIndex_loop prv (idxs ! Suc i) (Some (idxs ! i)) = Some (idxs ! 0)"
    using Suc.prems by (intro Suc.IH) simp_all
  ultimately show ?case by (subst findFirstIndex_loop.simps) simp
qed

lemma findFirstIndex_on_axis:
  assumes "chain prv (rev idxs)" "x \<in> set idxs"
  shows "findFirstIndex x prv = Some (idxs ! 0)"
proof -
  obtain i where "i < length idxs" "idxs ! i = x" using assms(2) by (auto simp: in_set_conv_nth)
  then show ?thesis
    using findFirstIndex_loop_on_axis [OF assms(1), of i x] by (simp add: findFirstIndex_def)
qed

lemma getGridOrigin_on_grid:
  assumes "grid nav cols rows" "on_grid cols rows (reference nav)"
  shows "getGridOrigin nav = Some (Coordinate (cols ! 0) (rows ! 0))"
proof -
  have "findFirstIndex (columnIndex (reference nav)) (findPreviousColumnIndex nav) = Some (cols ! 0)"
    using assms by (intro findFirstIndex_on_axis) (auto simp: grid_def axis_def on_grid_def)
  moreover have "findFirstIndex (rowIndex (reference nav)) (findPreviousRowIndex nav) = Some (rows ! 0)"
    using assms by (intro findFirstIndex_on_axis) (auto simp: grid_def axis_def on_grid_def)
  ultimately show ?thesis by (simp add: getGridOrigin_def getOrigin_def)
qed

lemma createIndices_on_axis:
  assumes "chain nxt idxs" "idxs \<noteq> []"
  shows "createIndices (idxs ! 0) nxt = Some idxs"
proof -
  obtain x xs where x: "idxs = x # xs" using assms(2) by (cases idxs) auto
  show ?thesis using createIndices_chain [of nxt x xs] assms(1) by (simp add: x)
qed

lemma findNextIndexByStep_on_axis:
  assumes "chain nxt idxs" "i < length idxs"
  shows "findNextIndexByStep nxt (idxs ! i) k
         = (if i + k < length idxs then Some (idxs ! (i + k)) else None)"
proof (induction k)
  case 0
  then show ?case using assms(2) by (simp add: findNextIndexByStep_def)
next
  case (Suc k)
  have "findNextIndexByStep nxt (idxs ! i) (Suc k)
        = (case findNextIndexByStep nxt (idxs ! i) k of None \<Rightarrow> None | Some p \<Rightarrow> nxt p)"
    by (simp add: findNextIndexByStep_def)
  also have "\<dots> = (if i + Suc k < length idxs then Some (idxs ! (i + Suc k)) else None)"
  proof (cases "i + k < length idxs")
    case True
    then show ?thesis using chain_next_on_axis [OF assms(1) True] by (simp add: Suc)
  next
    case False
    then show ?thesis by (simp add: Suc)
  qed
  finally show ?case .
qed

lemma filter_isNotUndefined_append:
  "filter_isNotUndefined (xs @ ys) = filter_isNotUndefined xs @ filter_isNotUndefined ys"
  by (induction xs rule: filter_isNotUndefined.induct) simp_all

lemma starting_rows_on_axis:
  assumes "chain nxt idxs" "idxs \<noteq> []"
  shows "filter_isNotUndefined (map (\<lambda>d. findNextIndexByStep nxt (idxs ! 0) d) [0..<n]) = take n idxs"
proof (induction n)
  case 0
  then show ?case by simp
next
  case (Suc n)
  have s: "findNextIndexByStep nxt (idxs ! 0) n = (if n < length idxs then Some (idxs ! n) else None)"
    using findNextIndexByStep_on_axis [OF assms(1), of 0 n] assms(2) by simp
  show ?case
  proof (cases "n < length idxs")
    case True
    then show ?thesis using Suc s by (simp add: filter_isNotUndefined_append take_Suc_conv_app_nth)
  next
    case False
    then show ?thesis using Suc s by (simp add: filter_isNotUndefined_append)
  qed
qed

lemma findStartingCoordinates_on_grid:
  assumes "grid nav cols rows" "on_grid cols rows (reference nav)"
  shows "findStartingCoordinates nav n
         = Some (sort_by (createCoordinatesSorter nav) (map (Coordinate (cols ! 0)) (take n rows)))"
proof -
  have r: "chain (findNextRowIndex nav) rows" "rows \<noteq> []"
    using assms by (auto simp: grid_def axis_def on_grid_def)
  show ?thesis
    using starting_rows_on_axis [OF r, of n]
    by (simp add: findStartingCoordinates_def getGridOrigin_on_grid [OF assms])
qed

lemma getNextIndex_started:
  assumes "nextIndexIndex l = Some k" "k < length (indices l)"
  shows "getNextIndex l
         = (indices l ! (Suc k mod length (indices l)),
            l\<lparr>nextIndexIndex := Some (Suc k mod length (indices l))\<rparr>)"
proof (cases "Suc k < length (indices l)")
  case True
  then show ?thesis using assms by (simp add: getNextIndex_def)
next
  case False
  then have "Suc k = length (indices l)" using assms(2) by simp
  then show ?thesis using assms by (simp add: getNextIndex_def)
qed

lemma traverseStartingCoordinates_started:
  assumes "nextIndexIndex l = Some k" "k < length (indices l)"
  shows "length (traverseStartingCoordinates cs l) = length cs
     \<and> (\<forall>j < length cs. traverseStartingCoordinates cs l ! j
            = Coordinate (cs ! j) (indices l ! ((k + 1 + j) mod length (indices l))))"
  using assms
proof (induction cs arbitrary: l k)
  case Nil
  then show ?case by simp
next
  case (Cons c cs)
  let ?m = "length (indices l)"
  let ?l' = "l\<lparr>nextIndexIndex := Some (Suc k mod ?m)\<rparr>"
  have gn: "getNextIndex l = (indices l ! (Suc k mod ?m), ?l')"
    using Cons.prems by (rule getNextIndex_started)
  have "0 < ?m" using Cons.prems(2) by linarith
  then have k': "Suc k mod ?m < length (indices ?l')" by simp
  have IH: "length (traverseStartingCoordinates cs ?l') = length cs
     \<and> (\<forall>j < length cs. traverseStartingCoordinates cs ?l' ! j
            = Coordinate (cs ! j) (indices ?l' ! ((Suc k mod ?m + 1 + j) mod length (indices ?l'))))"
    using k' by (intro Cons.IH) simp_all
  have unf: "traverseStartingCoordinates (c # cs) l
         = Coordinate c (indices l ! (Suc k mod ?m)) # traverseStartingCoordinates cs ?l'"
    by (simp add: gn)
  have m: "(Suc k mod ?m + 1 + j) mod ?m = (k + 1 + Suc j) mod ?m" for j
  proof -
    have "(Suc k mod ?m + (1 + j)) mod ?m = (Suc k + (1 + j)) mod ?m" by (rule mod_add_left_eq)
    moreover have "Suc k mod ?m + 1 + j = Suc k mod ?m + (1 + j)" by simp
    moreover have "Suc k + (1 + j) = k + 1 + Suc j" by simp
    ultimately show ?thesis by (simp only:)
  qed
  have m': "Suc (Suc k mod ?m + j) mod ?m = Suc (Suc (k + j)) mod ?m" for j
    using m [of j] by simp
  show ?case
  proof (intro conjI allI impI)
    show "length (traverseStartingCoordinates (c # cs) l) = length (c # cs)"
      unfolding unf using IH by simp
  next
    fix j assume j: "j < length (c # cs)"
    show "traverseStartingCoordinates (c # cs) l ! j
          = Coordinate ((c # cs) ! j) (indices l ! ((k + 1 + j) mod ?m))"
    proof (cases j)
      case 0
      then show ?thesis unfolding unf by simp
    next
      case (Suc j')
      then have "j' < length cs" using j by simp
      then have "traverseStartingCoordinates cs ?l' ! j'
            = Coordinate (cs ! j') (indices l ! ((Suc k mod ?m + 1 + j') mod ?m))"
        using IH by simp
      then show ?thesis unfolding unf Suc by (simp add: m')
    qed
  qed
qed

lemma traverseStartingCoordinates_fresh:
  assumes d: "distinct S" and p: "p < length S"
  shows "length (traverseStartingCoordinates cs \<lparr>indices = S, initialIndex = S ! p, nextIndexIndex = None\<rparr>)
           = length cs
     \<and> (\<forall>j < length cs.
           traverseStartingCoordinates cs \<lparr>indices = S, initialIndex = S ! p, nextIndexIndex = None\<rparr> ! j
            = Coordinate (cs ! j) (S ! ((p + j) mod length S)))"
proof (cases cs)
  case Nil
  then show ?thesis by simp
next
  case (Cons c cs')
  let ?l = "\<lparr>indices = S, initialIndex = S ! p, nextIndexIndex = None\<rparr>"
  let ?l' = "\<lparr>indices = S, initialIndex = S ! p, nextIndexIndex = Some p\<rparr>"
  have gn: "getNextIndex ?l = (S ! p, ?l')"
    by (simp add: getNextIndex_def keyOf_nth [OF d p])
  have unf: "traverseStartingCoordinates (c # cs') ?l = Coordinate c (S ! p) # traverseStartingCoordinates cs' ?l'"
    by (simp add: gn)
  have rest: "length (traverseStartingCoordinates cs' ?l') = length cs'
     \<and> (\<forall>j < length cs'. traverseStartingCoordinates cs' ?l' ! j
            = Coordinate (cs' ! j) (indices ?l' ! ((p + 1 + j) mod length (indices ?l'))))"
    using p by (intro traverseStartingCoordinates_started) simp_all
  show ?thesis
  proof (intro conjI allI impI)
    show "length (traverseStartingCoordinates cs ?l) = length cs" unfolding Cons unf using rest by simp
  next
    fix j assume j: "j < length cs"
    show "traverseStartingCoordinates cs ?l ! j = Coordinate (cs ! j) (S ! ((p + j) mod length S))"
    proof (cases j)
      case 0
      then show ?thesis unfolding Cons unf using p by simp
    next
      case (Suc j')
      then have "j' < length cs'" using j Cons by simp
      then have "traverseStartingCoordinates cs' ?l' ! j' = Coordinate (cs' ! j') (S ! ((p + 1 + j') mod length S))"
        using rest by simp
      then show ?thesis unfolding Cons unf Suc by simp
    qed
  qed
qed

lemma rotation_start:
  assumes "u < (m::nat)"
  shows "(u + m - j mod m) mod m < m \<and> ((u + m - j mod m) mod m + j) mod m = u"
proof -
  have m: "0 < m" using assms by simp
  have a: "j mod m < m" using m by simp
  have "((u + m - j mod m) mod m + j) mod m = (u + m - j mod m + j) mod m"
    by (simp add: mod_simps)
  also have "u + m - j mod m + j = u + m * Suc (j div m)"
  proof -
    have "j = m * (j div m) + j mod m" by simp
    then have "u + m - j mod m + j = u + m - j mod m + (m * (j div m) + j mod m)" by simp
    also have "\<dots> = u + m + m * (j div m)" using a by linarith
    finally show ?thesis by simp
  qed
  also have "(u + m * Suc (j div m)) mod m = u mod m" by (rule mod_mult_self2)
  also have "u mod m = u" using assms by simp
  finally show ?thesis using m by simp
qed

lemma createIndices_loop_stepping:
  assumes ch: "chain nxt rows" and n: "0 < n"
  shows "q < length rows \<Longrightarrow>
    \<exists>ys. createIndices_loop (\<lambda>x. findNextIndexByStep nxt x n) acc (rows ! q) = Some (acc @ ys)
      \<and> set ys \<subseteq> set rows
      \<and> (\<forall>t. 0 < t \<longrightarrow> q + t * n < length rows \<longrightarrow> rows ! (q + t * n) \<in> set ys)"
proof (induction "length rows - q" arbitrary: q acc rule: less_induct)
  case less
  let ?step = "\<lambda>x. findNextIndexByStep nxt x n"
  have st: "?step (rows ! q) = (if q + n < length rows then Some (rows ! (q + n)) else None)"
    using findNextIndexByStep_on_axis [OF ch less.prems] by simp
  show ?case
  proof (cases "q + n < length rows")
    case False
    then have "createIndices_loop ?step acc (rows ! q) = Some (acc @ [])"
      using st by (subst createIndices_loop.simps) simp
    moreover have "\<forall>t. 0 < t \<longrightarrow> q + t * n < length rows \<longrightarrow> rows ! (q + t * n) \<in> set []"
    proof (intro allI impI)
      fix t :: nat assume t: "0 < t" "q + t * n < length rows"
      have "n \<le> t * n" using t(1) by simp
      then have "q + n < length rows" using t(2) by linarith
      then show "rows ! (q + t * n) \<in> set []" using False by simp
    qed
    ultimately show ?thesis by (intro exI [of _ "[]"]) simp
  next
    case True
    have "length rows - (q + n) < length rows - q" using True n by linarith
    then obtain ys where ys: "createIndices_loop ?step (acc @ [rows ! (q + n)]) (rows ! (q + n))
           = Some ((acc @ [rows ! (q + n)]) @ ys)"
      and sub: "set ys \<subseteq> set rows"
      and mem: "\<forall>t. 0 < t \<longrightarrow> (q + n) + t * n < length rows \<longrightarrow> rows ! ((q + n) + t * n) \<in> set ys"
      using less.hyps [of "q + n" "acc @ [rows ! (q + n)]"] True by blast
    have r: "createIndices_loop ?step acc (rows ! q) = Some (acc @ rows ! (q + n) # ys)"
      using st True ys by (subst createIndices_loop.simps) simp
    have s: "set (rows ! (q + n) # ys) \<subseteq> set rows" using sub True by simp
    have m: "\<forall>t. 0 < t \<longrightarrow> q + t * n < length rows \<longrightarrow> rows ! (q + t * n) \<in> set (rows ! (q + n) # ys)"
    proof (intro allI impI)
      fix t :: nat assume t: "0 < t" "q + t * n < length rows"
      show "rows ! (q + t * n) \<in> set (rows ! (q + n) # ys)"
      proof (cases "t = 1")
        case True
        then show ?thesis by simp
      next
        case False
        then obtain t' where t': "t = Suc t'" "0 < t'" using t(1) by (cases t) auto
        have e: "q + t * n = (q + n) + t' * n" by (simp add: t'(1))
        have "rows ! ((q + n) + t' * n) \<in> set ys" using mem t'(2) t(2) e by simp
        then show ?thesis by (simp add: e)
      qed
    qed
    show ?thesis using r s m by blast
  qed
qed

lemma createIndices_stepping:
  assumes ch: "chain nxt rows" and n: "0 < n" and q: "q < length rows"
  shows "\<exists>ys. createIndices (rows ! q) (\<lambda>x. findNextIndexByStep nxt x n) = Some ys
      \<and> set ys \<subseteq> set rows
      \<and> (\<forall>t. q + t * n < length rows \<longrightarrow> rows ! (q + t * n) \<in> set ys)"
proof -
  obtain ys where ys: "createIndices_loop (\<lambda>x. findNextIndexByStep nxt x n) [rows ! q] (rows ! q)
        = Some ([rows ! q] @ ys)"
    and sub: "set ys \<subseteq> set rows"
    and mem: "\<forall>t. 0 < t \<longrightarrow> q + t * n < length rows \<longrightarrow> rows ! (q + t * n) \<in> set ys"
    using createIndices_loop_stepping [OF ch n q, of "[rows ! q]"] by blast
  have 1: "createIndices (rows ! q) (\<lambda>x. findNextIndexByStep nxt x n) = Some (rows ! q # ys)"
    using ys by (simp add: createIndices_def)
  have 2: "set (rows ! q # ys) \<subseteq> set rows" using sub q by simp
  have 3: "\<forall>t. q + t * n < length rows \<longrightarrow> rows ! (q + t * n) \<in> set (rows ! q # ys)"
  proof (intro allI impI)
    fix t assume t: "q + t * n < length rows"
    show "rows ! (q + t * n) \<in> set (rows ! q # ys)"
    proof (cases "t = 0")
      case True
      then show ?thesis by simp
    next
      case False
      then show ?thesis using mem t by simp
    qed
  qed
  show ?thesis using 1 2 3 by blast
qed

lemma those_map_the:
  "(\<And>x. x \<in> set xs \<Longrightarrow> \<exists>y. f x = Some y) \<Longrightarrow> those (map f xs) = Some (map (\<lambda>x. the (f x)) xs)"
proof (induction xs)
  case Nil
  then show ?case by simp
next
  case (Cons x xs)
  obtain y where y: "f x = Some y" using Cons.prems [of x] by auto
  have "those (map f xs) = Some (map (\<lambda>x. the (f x)) xs)" using Cons.prems by (intro Cons.IH) simp
  then show ?case by (simp add: y)
qed

lemma map_results_the:
  "(\<And>x. x \<in> set xs \<Longrightarrow> \<exists>y. f x = Some (Inr y)) \<Longrightarrow>
   \<exists>ys. map_results f xs = Some (Inr ys) \<and> length ys = length xs
        \<and> (\<forall>i < length xs. f (xs ! i) = Some (Inr (ys ! i)))"
proof (induction xs)
  case Nil
  then show ?case by simp
next
  case (Cons x xs)
  obtain y where y: "f x = Some (Inr y)" using Cons.prems [of x] by auto
  obtain ys where ys: "map_results f xs = Some (Inr ys)" "length ys = length xs"
    "\<forall>i < length xs. f (xs ! i) = Some (Inr (ys ! i))"
    using Cons.IH Cons.prems by auto
  have 1: "map_results f (x # xs) = Some (Inr (y # ys))" by (simp add: y ys(1))
  have 2: "\<forall>i < length (x # xs). f ((x # xs) ! i) = Some (Inr ((y # ys) ! i))"
  proof (intro allI impI)
    fix i assume "i < length (x # xs)"
    then show "f ((x # xs) ! i) = Some (Inr ((y # ys) ! i))"
      using y ys(3) by (cases i) simp_all
  qed
  show ?case using 1 2 ys(2) by (intro exI [of _ "y # ys"]) simp
qed

lemma traverseGridDiagonally_on_grid:
  assumes ch: "chain nxt rows" and n: "0 < n"
    and d: "distinct (map rowIndex P)" and sub: "set (map rowIndex P) \<subseteq> set rows"
    and p: "p < length P"
  shows "\<exists>l. traverseGridDiagonally cols n P (P ! p) nxt = Some (Inr l)
      \<and> (\<forall>c \<in> set l. rowIndex c \<in> set rows)
      \<and> (\<forall>j q t. j < length cols \<longrightarrow> q < length rows \<longrightarrow> q + t * n < length rows \<longrightarrow>
            map rowIndex P ! ((p + j) mod length P) = rows ! q \<longrightarrow>
            Coordinate (cols ! j) (rows ! (q + t * n)) \<in> set l)"
proof -
  let ?S = "map rowIndex P"
  let ?l0 = "\<lparr>indices = ?S, initialIndex = rowIndex (P ! p), nextIndexIndex = None\<rparr>"
  let ?tsc = "traverseStartingCoordinates cols ?l0"
  let ?step = "\<lambda>x. findNextIndexByStep nxt x n"
  let ?F = "\<lambda>first. map_option (map (Coordinate (columnIndex first))) (createIndices (rowIndex first) ?step)"
  have pS: "p < length ?S" using p by simp
  have m: "0 < length P" using p by linarith
  have sp: "?S ! p = rowIndex (P ! p)" using p by simp
  have tl: "length ?tsc = length cols"
    and tn: "\<And>j. j < length cols \<Longrightarrow> ?tsc ! j = Coordinate (cols ! j) (?S ! ((p + j) mod length ?S))"
    using traverseStartingCoordinates_fresh [OF d pS, of cols] unfolding sp by simp_all
  have nl: "new_LoopableIndices ?S (rowIndex (P ! p)) = Inr ?l0"
    using p by (simp add: new_LoopableIndices_def)
  have first_row: "\<exists>q < length rows. rowIndex first = rows ! q" if f: "first \<in> set ?tsc" for first
  proof -
    obtain j where j: "j < length cols" "?tsc ! j = first"
      using f tl by (auto simp: in_set_conv_nth)
    have "(p + j) mod length ?S < length ?S" using m by simp
    then have "?S ! ((p + j) mod length ?S) \<in> set ?S" by (rule nth_mem)
    then have "rowIndex first \<in> set rows" using sub tn [OF j(1)] j(2) by auto
    then show ?thesis by (auto simp: in_set_conv_nth)
  qed
  have each: "\<exists>y. ?F first = Some y" if f: "first \<in> set ?tsc" for first
  proof -
    obtain q where q: "q < length rows" "rowIndex first = rows ! q" using first_row [OF f] by blast
    obtain ys where "createIndices (rows ! q) ?step = Some ys"
      using createIndices_stepping [OF ch n q(1)] by blast
    then show ?thesis by (simp add: q(2))
  qed
  have th: "those (map ?F ?tsc) = Some (map (\<lambda>x. the (?F x)) ?tsc)"
    using each by (rule those_map_the)
  define l where "l = concat (map (\<lambda>x. the (?F x)) ?tsc)"
  have res: "traverseGridDiagonally cols n P (P ! p) nxt = Some (Inr l)"
    using p by (simp add: traverseGridDiagonally_def nl th l_def)
  have rows_in: "\<forall>c \<in> set l. rowIndex c \<in> set rows"
  proof
    fix c assume "c \<in> set l"
    then obtain first where f: "first \<in> set ?tsc" and c: "c \<in> set (the (?F first))"
      by (auto simp: l_def)
    obtain q where q: "q < length rows" "rowIndex first = rows ! q" using first_row [OF f] by blast
    obtain ys where ys: "createIndices (rows ! q) ?step = Some ys" "set ys \<subseteq> set rows"
      using createIndices_stepping [OF ch n q(1)] by blast
    have "the (?F first) = map (Coordinate (columnIndex first)) ys" by (simp add: q(2) ys(1))
    then show "rowIndex c \<in> set rows" using c ys(2) by auto
  qed
  have cover: "Coordinate (cols ! j) (rows ! (q + t * n)) \<in> set l"
    if j: "j < length cols" and q: "q < length rows" and t: "q + t * n < length rows"
      and at: "?S ! ((p + j) mod length P) = rows ! q" for j q t
  proof -
    have first: "?tsc ! j = Coordinate (cols ! j) (rows ! q)" using tn [OF j] at by simp
    have fin: "?tsc ! j \<in> set ?tsc" using j tl by (intro nth_mem) simp
    obtain ys where ys: "createIndices (rows ! q) ?step = Some ys"
      and mem: "\<forall>t. q + t * n < length rows \<longrightarrow> rows ! (q + t * n) \<in> set ys"
      using createIndices_stepping [OF ch n q] by blast
    have "the (?F (?tsc ! j)) = map (Coordinate (cols ! j)) ys" by (simp add: first ys)
    moreover have "rows ! (q + t * n) \<in> set ys" using mem t by simp
    ultimately have "Coordinate (cols ! j) (rows ! (q + t * n)) \<in> set (the (?F (?tsc ! j)))" by simp
    then show ?thesis unfolding l_def using fin by auto
  qed
  show ?thesis using res rows_in cover by blast
qed

lemma mirror_value:
  assumes o: "getGridOrigin nav = Some origin"
    and r: "createIndices (rowIndex origin) (findNextRowIndex nav) = Some rowIndices"
    and c: "\<forall>c \<in> set coords. rowIndex c \<in> set rowIndices"
  shows "mirror nav coords
         = Some (Inr (map (\<lambda>c. Coordinate (columnIndex c)
                               (rev rowIndices ! the (keyOf rowIndices (rowIndex c)))) coords))"
proof -
  have mr: "map_results
         (\<lambda>c. Some (Either_map (Coordinate (columnIndex c)) (getReversedRowIndex rowIndices (rowIndex c))))
         coords
        = Some (Inr (map (\<lambda>c. Coordinate (columnIndex c) (rev rowIndices ! the (keyOf rowIndices (rowIndex c)))) coords))"
  proof (rule map_results_total)
    fix x assume "x \<in> set coords"
    then have "rowIndex x \<in> set rowIndices" using c by simp
    then obtain i where "keyOf rowIndices (rowIndex x) = Some i" using keyOf_Some by fastforce
    then show "Some (Either_map (Coordinate (columnIndex x)) (getReversedRowIndex rowIndices (rowIndex x)))
       = Some (Inr (Coordinate (columnIndex x) (rev rowIndices ! the (keyOf rowIndices (rowIndex x)))))"
      by (simp add: getReversedRowIndex_def)
  qed
  show ?thesis by (simp add: mirror_def o r mr)
qed

lemma mirror_total:
  assumes o: "getGridOrigin nav = Some origin"
    and r: "createIndices (rowIndex origin) (findNextRowIndex nav) = Some rowIndices"
    and c: "\<forall>c \<in> set coords. rowIndex c \<in> set rowIndices"
  shows "\<exists>m. mirror nav coords = Some (Inr m)"
  using mirror_value [OF assms] by blast

lemma traverseGrid_lists:
  assumes g: "grid nav cols rows" and ref: "on_grid cols rows (reference nav)" and n: "0 < n"
  shows "\<exists>lists ls S. traverseGrid nav n = Some (Inr lists)
     \<and> S \<noteq> [] \<and> length ls = length S \<and> set S = set (take n rows)
     \<and> length S = length (take n rows)
     \<and> (\<forall>p j q t. p < length S \<longrightarrow> j < length cols \<longrightarrow> q < length rows \<longrightarrow>
            q + t * n < length rows \<longrightarrow> S ! ((p + j) mod length S) = rows ! q \<longrightarrow>
            Coordinate (cols ! j) (rows ! (q + t * n)) \<in> set (ls ! p))
     \<and> (\<forall>p < length S. \<forall>c \<in> set (ls ! p). rowIndex c \<in> set rows)
     \<and> (\<forall>p < length S. ls ! p \<noteq> [] \<longrightarrow> ls ! p \<in> set lists)
     \<and> (\<forall>l \<in> set lists. \<exists>p < length S. l = ls ! p \<or> mirror nav (ls ! p) = Some (Inr l))"
proof -
  let ?nr = "findNextRowIndex nav"
  let ?c0 = "cols ! 0"
  have cne: "cols \<noteq> []" and rne: "rows \<noteq> []" using ref by (auto simp: on_grid_def)
  have chc: "chain (findNextColumnIndex nav) cols" and chr: "chain ?nr rows"
    and dr: "distinct rows"
    using g by (auto simp: grid_def axis_def ordered_by_distinct)
  have o: "getGridOrigin nav = Some (Coordinate ?c0 (rows ! 0))"
    by (rule getGridOrigin_on_grid [OF g ref])
  have ci: "createIndices ?c0 (findNextColumnIndex nav) = Some cols"
    by (rule createIndices_on_axis [OF chc cne])
  have cr: "createIndices (rowIndex (Coordinate ?c0 (rows ! 0))) ?nr = Some rows"
    using createIndices_on_axis [OF chr rne] by simp
  define P where "P = sort_by (createCoordinatesSorter nav) (map (Coordinate ?c0) (take n rows))"
  have fs: "findStartingCoordinates nav n = Some P"
    unfolding P_def by (rule findStartingCoordinates_on_grid [OF g ref])
  define S where "S = map rowIndex P"
  have lS: "length S = length P" by (simp add: S_def)
  have lP: "length P = length (take n rows)" by (simp add: P_def)
  have setP: "set P = Coordinate ?c0 ` set (take n rows)" by (simp add: P_def)
  have setS: "set S = set (take n rows)" by (simp add: S_def setP image_image)
  have "take n rows \<noteq> []" using n rne by simp
  then have Sne: "S \<noteq> []" using setS by (metis set_empty)
  have dP: "distinct P" using dr by (simp add: P_def distinct_map inj_on_def)
  have "inj_on rowIndex (set P)" unfolding setP by (auto simp: inj_on_def)
  then have dS: "distinct (map rowIndex P)" using dP by (simp add: distinct_map)
  have subS: "set (map rowIndex P) \<subseteq> set rows"
    using setS set_take_subset [of n rows] by (simp add: S_def)
  let ?f = "\<lambda>s. traverseGridDiagonally cols n P s ?nr"
  have diag: "\<exists>l. ?f (P ! p) = Some (Inr l)
      \<and> (\<forall>c \<in> set l. rowIndex c \<in> set rows)
      \<and> (\<forall>j q t. j < length cols \<longrightarrow> q < length rows \<longrightarrow> q + t * n < length rows \<longrightarrow>
            map rowIndex P ! ((p + j) mod length P) = rows ! q \<longrightarrow>
            Coordinate (cols ! j) (rows ! (q + t * n)) \<in> set l)" if "p < length P" for p
    using that by (rule traverseGridDiagonally_on_grid [OF chr n dS subS])
  have "\<exists>y. ?f s = Some (Inr y)" if s: "s \<in> set P" for s
  proof -
    obtain p where "p < length P" "P ! p = s" using s by (auto simp: in_set_conv_nth)
    then show ?thesis using diag [of p] by auto
  qed
  then obtain ls where ls: "map_results ?f P = Some (Inr ls)" and lls: "length ls = length P"
    and lsi: "\<forall>i < length P. ?f (P ! i) = Some (Inr (ls ! i))"
    using map_results_the [of P ?f] by blast
  have dir: "traverseGridDiagonallyInDirection nav n = Some (Inr ls)"
    by (simp add: traverseGridDiagonallyInDirection_def o ci fs ls)
  have rows_in: "\<forall>c \<in> set (ls ! p). rowIndex c \<in> set rows" if p: "p < length P" for p
    using diag [OF p] lsi p by auto
  have cover: "Coordinate (cols ! j) (rows ! (q + t * n)) \<in> set (ls ! p)"
    if pl: "p < length P" and rest: "j < length cols" "q < length rows" "q + t * n < length rows"
      "S ! ((p + j) mod length P) = rows ! q" for p j q t
  proof -
    obtain l where l: "?f (P ! p) = Some (Inr l)"
      and c: "\<forall>j q t. j < length cols \<longrightarrow> q < length rows \<longrightarrow> q + t * n < length rows \<longrightarrow>
            map rowIndex P ! ((p + j) mod length P) = rows ! q \<longrightarrow>
            Coordinate (cols ! j) (rows ! (q + t * n)) \<in> set l"
      using diag [OF pl] by blast
    have "l = ls ! p" using l lsi pl by simp
    then show ?thesis using c rest unfolding S_def by blast
  qed
  let ?g = "\<lambda>l. map_option (Either_map (\<lambda>m. [l, m])) (mirror nav l)"
  have "\<exists>y. ?g l = Some (Inr y)" if l: "l \<in> set ls" for l
  proof -
    obtain p where p: "p < length P" "ls ! p = l" using l lls by (auto simp: in_set_conv_nth)
    have "\<forall>c \<in> set l. rowIndex c \<in> set rows" using rows_in [OF p(1)] p(2) by simp
    then obtain m where "mirror nav l = Some (Inr m)" using mirror_total [OF o cr] by blast
    then show ?thesis by simp
  qed
  then obtain pairs where pairs: "map_results ?g ls = Some (Inr pairs)" and lp: "length pairs = length ls"
    and pi: "\<forall>i < length ls. ?g (ls ! i) = Some (Inr (pairs ! i))"
    using map_results_the [of ls ?g] by blast
  define lists where "lists = filter (\<lambda>l. length l > 0) (concat pairs)"
  have tg: "traverseGrid nav n = Some (Inr lists)"
    by (simp add: traverseGrid_def dir pairs lists_def)
  have pair: "\<exists>m. pairs ! p = [ls ! p, m] \<and> mirror nav (ls ! p) = Some (Inr m)" if p: "p < length P" for p
  proof -
    have "?g (ls ! p) = Some (Inr (pairs ! p))" using pi p lls by simp
    then show ?thesis
      by (cases "mirror nav (ls ! p)") (auto elim: Either_map.elims)
  qed
  have in_lists: "ls ! p \<in> set lists" if p: "p < length P" and ne: "ls ! p \<noteq> []" for p
  proof -
    obtain m where "pairs ! p = [ls ! p, m]" using pair [OF p] by blast
    then have "ls ! p \<in> set (pairs ! p)" by simp
    moreover have "pairs ! p \<in> set pairs" using p lls lp by (intro nth_mem) simp
    ultimately show ?thesis using ne by (auto simp: lists_def)
  qed
  have from_lists: "\<exists>p < length P. l = ls ! p \<or> mirror nav (ls ! p) = Some (Inr l)" if l: "l \<in> set lists" for l
  proof -
    obtain pr where pr: "pr \<in> set pairs" "l \<in> set pr" using l by (auto simp: lists_def)
    then obtain p where p: "p < length P" "pairs ! p = pr"
      using lp lls by (auto simp: in_set_conv_nth)
    obtain m where m: "pairs ! p = [ls ! p, m]" "mirror nav (ls ! p) = Some (Inr m)"
      using pair [OF p(1)] by blast
    have "l = ls ! p \<or> l = m" using pr(2) p(2) m(1) by auto
    then show ?thesis using p(1) m(2) by blast
  qed
  have "traverseGrid nav n = Some (Inr lists)
     \<and> S \<noteq> [] \<and> length ls = length S \<and> set S = set (take n rows)
     \<and> length S = length (take n rows)
     \<and> (\<forall>p j q t. p < length S \<longrightarrow> j < length cols \<longrightarrow> q < length rows \<longrightarrow>
            q + t * n < length rows \<longrightarrow> S ! ((p + j) mod length S) = rows ! q \<longrightarrow>
            Coordinate (cols ! j) (rows ! (q + t * n)) \<in> set (ls ! p))
     \<and> (\<forall>p < length S. \<forall>c \<in> set (ls ! p). rowIndex c \<in> set rows)
     \<and> (\<forall>p < length S. ls ! p \<noteq> [] \<longrightarrow> ls ! p \<in> set lists)
     \<and> (\<forall>l \<in> set lists. \<exists>p < length S. l = ls ! p \<or> mirror nav (ls ! p) = Some (Inr l))"
    unfolding lS using tg Sne lls setS lP cover rows_in in_lists from_lists by blast
  then show ?thesis by blast
qed

lemma traverseGrid_covers_grid:
  assumes g: "grid nav cols rows" and ref: "on_grid cols rows (reference nav)" and n: "0 < n"
  shows "\<exists>lists. traverseGrid nav n = Some (Inr lists)
           \<and> (\<forall>c. on_grid cols rows c \<longrightarrow> (\<exists>l \<in> set lists. c \<in> set l))"
proof -
  obtain lists ls S where tg: "traverseGrid nav n = Some (Inr lists)"
    and setS: "set S = set (take n rows)"
    and cover: "\<forall>p j q t. p < length S \<longrightarrow> j < length cols \<longrightarrow> q < length rows \<longrightarrow>
            q + t * n < length rows \<longrightarrow> S ! ((p + j) mod length S) = rows ! q \<longrightarrow>
            Coordinate (cols ! j) (rows ! (q + t * n)) \<in> set (ls ! p)"
    and in_lists: "\<forall>p < length S. ls ! p \<noteq> [] \<longrightarrow> ls ! p \<in> set lists"
    using traverseGrid_lists [OF g ref n] by blast
  have all: "\<exists>l \<in> set lists. c \<in> set l" if c: "on_grid cols rows c" for c
  proof -
    obtain j i where j: "j < length cols" "cols ! j = columnIndex c"
      and i: "i < length rows" "rows ! i = rowIndex c"
      using c by (auto simp: on_grid_def in_set_conv_nth)
    define q where "q = i mod n"
    define t where "t = i div n"
    have qi: "q + t * n = i" by (simp add: q_def t_def)
    have qn: "q < n" using n by (simp add: q_def)
    have qr: "q < length rows" using qi i(1) by linarith
    have "q < length (take n rows)" using qn qr by simp
    then have "take n rows ! q \<in> set (take n rows)" by (rule nth_mem)
    then have "rows ! q \<in> set S" using qn setS by simp
    then obtain u where u: "u < length S" "S ! u = rows ! q" by (auto simp: in_set_conv_nth)
    define p where "p = (u + length S - j mod length S) mod length S"
    have p: "p < length S" "(p + j) mod length S = u"
      using rotation_start [OF u(1), of j] by (simp_all add: p_def)
    have il: "q + t * n < length rows" using qi i(1) by simp
    have at: "S ! ((p + j) mod length S) = rows ! q" using p(2) u(2) by simp
    have "Coordinate (cols ! j) (rows ! (q + t * n)) \<in> set (ls ! p)"
      using cover p(1) j(1) qr il at by blast
    then have m: "c \<in> set (ls ! p)" using j(2) i(2) qi by (cases c) simp
    then have "ls ! p \<noteq> []" by auto
    then have "ls ! p \<in> set lists" using in_lists p(1) by blast
    then show ?thesis using m by blast
  qed
  show ?thesis using tg all by blast
qed

lemma run_from_start: "run_from nxt x (Suc k) = Some xs \<Longrightarrow> x \<in> set xs"
  by (cases k) (auto split: option.splits)

lemma run_from_on_axis:
  "chain nxt idxs \<Longrightarrow> x \<in> set idxs \<Longrightarrow> run_from nxt x k = Some xs \<Longrightarrow> set xs \<subseteq> set idxs"
proof (induction nxt x k arbitrary: xs rule: run_from.induct)
  case (1 nxt x)
  then show ?case by simp
next
  case (2 nxt x)
  then show ?case by auto
next
  case (3 nxt x n)
  obtain i where i: "i < length idxs" "idxs ! i = x" using 3(3) by (auto simp: in_set_conv_nth)
  obtain y where y: "nxt x = Some y" using 3(4) by (cases "nxt x") auto
  then obtain ys where ys: "run_from nxt y (Suc n) = Some ys" "xs = x # ys" using 3(4) by auto
  have "nxt (idxs ! i) = (if Suc i < length idxs then Some (idxs ! Suc i) else None)"
    by (rule chain_next_on_axis [OF 3(2) i(1)])
  then have "y \<in> set idxs" using y i(2) by (auto split: if_splits)
  then have "set ys \<subseteq> set idxs" using 3(1) [OF y 3(2) _ ys(1)] by simp
  then show ?case using ys(2) 3(3) by simp
qed

lemma mirror_on_grid:
  assumes g: "grid nav cols rows" and ref: "on_grid cols rows (reference nav)"
    and c: "\<forall>c \<in> set cs. rowIndex c \<in> set rows"
    and m: "mirror nav cs = Some (Inr ms)"
    and k: "k < length rows" and x: "Coordinate x (rows ! k) \<in> set cs"
  shows "Coordinate x (rows ! (length rows - 1 - k)) \<in> set ms"
proof -
  have rne: "rows \<noteq> []" using ref by (auto simp: on_grid_def)
  have chr: "chain (findNextRowIndex nav) rows" and dr: "distinct rows"
    using g by (auto simp: grid_def axis_def ordered_by_distinct)
  have o: "getGridOrigin nav = Some (Coordinate (cols ! 0) (rows ! 0))"
    by (rule getGridOrigin_on_grid [OF g ref])
  have cr: "createIndices (rowIndex (Coordinate (cols ! 0) (rows ! 0))) (findNextRowIndex nav) = Some rows"
    using createIndices_on_axis [OF chr rne] by simp
  let ?F = "\<lambda>c. Coordinate (columnIndex c) (rev rows ! the (keyOf rows (rowIndex c)))"
  have ms: "ms = map ?F cs" using mirror_value [OF o cr c] m by simp
  have fx: "?F (Coordinate x (rows ! k)) = Coordinate x (rows ! (length rows - 1 - k))"
    using k by (simp add: keyOf_nth [OF dr k] rev_nth Suc_diff_Suc)
  have "?F (Coordinate x (rows ! k)) \<in> ?F ` set cs" using x by (rule imageI)
  then show ?thesis unfolding ms fx by simp
qed

lemma run_from_chain:
  "chain nxt idxs \<Longrightarrow> j0 < length idxs \<Longrightarrow> run_from nxt (idxs ! j0) (Suc k) = Some xs \<Longrightarrow>
   j0 + Suc k \<le> length idxs \<and> xs = map (nth idxs) [j0..<j0 + Suc k]"
proof (induction k arbitrary: j0 xs)
  case 0
  then show ?case by auto
next
  case (Suc k)
  have nx: "nxt (idxs ! j0) = (if Suc j0 < length idxs then Some (idxs ! Suc j0) else None)"
    by (rule chain_next_on_axis [OF Suc.prems(1,2)])
  have lt: "Suc j0 < length idxs" using Suc.prems(3) nx by (auto split: if_splits)
  then obtain ys where ys: "run_from nxt (idxs ! Suc j0) (Suc k) = Some ys" "xs = idxs ! j0 # ys"
    using Suc.prems(3) nx by auto
  have IH: "Suc j0 + Suc k \<le> length idxs \<and> ys = map (nth idxs) [Suc j0..<Suc j0 + Suc k]"
    using Suc.prems(1) lt ys(1) by (rule Suc.IH)
  have "[j0..<j0 + Suc (Suc k)] = j0 # [Suc j0..<Suc j0 + Suc k]" by (simp add: upt_conv_Cons)
  then show ?case using IH ys(2) by simp
qed

lemma diagonal_meets_runs:
  assumes n: "0 < n" and Sne: "S \<noteq> []" and setS: "set S = set (take n rows)"
    and lS: "length S = length (take n rows)" and p: "p < length S"
    and cover: "\<And>j q t. j < length cols \<Longrightarrow> q < length rows \<Longrightarrow> q + t * n < length rows \<Longrightarrow>
            S ! ((p + j) mod length S) = rows ! q \<Longrightarrow>
            Coordinate (cols ! j) (rows ! (q + t * n)) \<in> set l"
  shows "j0 + n \<le> length cols \<Longrightarrow> i < length rows \<Longrightarrow>
           \<exists>j. j0 \<le> j \<and> j < j0 + n \<and> Coordinate (cols ! j) (rows ! i) \<in> set l"
    and "j < length cols \<Longrightarrow> i0 + n \<le> length rows \<Longrightarrow>
           \<exists>i. i0 \<le> i \<and> i < i0 + n \<and> Coordinate (cols ! j) (rows ! i) \<in> set l"
proof -
  let ?m = "length S"
  have mn: "?m \<le> n" using lS by simp
  {
    assume j0: "j0 + n \<le> length cols" and i: "i < length rows"
    define q where "q = i mod n"
    define t where "t = i div n"
    have qi: "q + t * n = i" by (simp add: q_def t_def)
    have qn: "q < n" using n by (simp add: q_def)
    have qr: "q < length rows" using qi i by linarith
    have "q < length (take n rows)" using qn qr by simp
    then have "take n rows ! q \<in> set (take n rows)" by (rule nth_mem)
    then have "rows ! q \<in> set S" using qn setS by simp
    then obtain u where u: "u < ?m" "S ! u = rows ! q" by (auto simp: in_set_conv_nth)
    define d where "d = (u + ?m - (p + j0) mod ?m) mod ?m"
    have d: "d < ?m" "(d + (p + j0)) mod ?m = u"
      using rotation_start [OF u(1), of "p + j0"] by (simp_all add: d_def)
    have e: "p + (j0 + d) = d + (p + j0)" by simp
    have at: "S ! ((p + (j0 + d)) mod ?m) = rows ! q" unfolding e d(2) by (rule u(2))
    have jl: "j0 + d < length cols" using d(1) mn j0 by linarith
    have "Coordinate (cols ! (j0 + d)) (rows ! (q + t * n)) \<in> set l"
      using jl qr _ at by (rule cover) (simp add: qi i)
    then have "j0 \<le> j0 + d \<and> j0 + d < j0 + n \<and> Coordinate (cols ! (j0 + d)) (rows ! i) \<in> set l"
      using d(1) mn by (simp add: qi)
    then show "\<exists>j. j0 \<le> j \<and> j < j0 + n \<and> Coordinate (cols ! j) (rows ! i) \<in> set l" by blast
  }
  {
    assume j: "j < length cols" and i0: "i0 + n \<le> length rows"
    have ln: "length (take n rows) = n" using i0 by simp
    have mm: "?m = n" using lS ln by simp
    have "0 < ?m" using p by linarith
    then have "(p + j) mod ?m < ?m" by simp
    then have "S ! ((p + j) mod ?m) \<in> set (take n rows)" using setS nth_mem by blast
    then obtain q0 where q0: "q0 < length (take n rows)" "take n rows ! q0 = S ! ((p + j) mod ?m)"
      by (auto simp: in_set_conv_nth)
    have q0n: "q0 < n" using q0(1) by simp
    have q0r: "q0 < length rows" using q0(1) by simp
    have at: "S ! ((p + j) mod ?m) = rows ! q0" using q0 by simp
    define d where "d = (q0 + n - i0 mod n) mod n"
    have d: "d < n" "(d + i0) mod n = q0"
      using rotation_start [OF q0n, of i0] by (simp_all add: d_def)
    define t where "t = (d + i0) div n"
    have "(d + i0) mod n + (d + i0) div n * n = d + i0" by (rule mod_div_mult_eq)
    then have qi: "q0 + t * n = i0 + d" unfolding d(2) t_def by simp
    have il: "q0 + t * n < length rows" using qi d(1) i0 by linarith
    have "Coordinate (cols ! j) (rows ! (q0 + t * n)) \<in> set l"
      using j q0r il at by (rule cover)
    then have "i0 \<le> i0 + d \<and> i0 + d < i0 + n \<and> Coordinate (cols ! j) (rows ! (i0 + d)) \<in> set l"
      using d(1) by (simp add: qi)
    then show "\<exists>i. i0 \<le> i \<and> i < i0 + n \<and> Coordinate (cols ! j) (rows ! i) \<in> set l" by blast
  }
qed

lemma traverseGrid_each_list_meets_run:
  assumes g: "grid nav cols rows" and ref: "on_grid cols rows (reference nav)" and n: "0 < minSize"
    and start: "on_grid cols rows start"
    and run: "(\<exists>xs. run_from (findNextColumnIndex nav) (columnIndex start) minSize = Some xs
                  \<and> cells = map (\<lambda>x. Coordinate x (rowIndex start)) xs)
            \<or> (\<exists>ys. run_from (findNextRowIndex nav) (rowIndex start) minSize = Some ys
                  \<and> cells = map (\<lambda>y. Coordinate (columnIndex start) y) ys)"
  shows "\<exists>lists. traverseGrid nav minSize = Some (Inr lists) \<and> lists \<noteq> []
           \<and> (\<forall>l \<in> set lists. \<exists>cell \<in> set cells. cell \<in> set l)"
proof -
  let ?W = "length cols" and ?H = "length rows"
  obtain lists ls S where tg: "traverseGrid nav minSize = Some (Inr lists)"
    and Sne: "S \<noteq> []" and lls: "length ls = length S" and setS: "set S = set (take minSize rows)"
    and lS: "length S = length (take minSize rows)"
    and cover: "\<forall>p j q t. p < length S \<longrightarrow> j < ?W \<longrightarrow> q < ?H \<longrightarrow>
            q + t * minSize < ?H \<longrightarrow> S ! ((p + j) mod length S) = rows ! q \<longrightarrow>
            Coordinate (cols ! j) (rows ! (q + t * minSize)) \<in> set (ls ! p)"
    and rows_in: "\<forall>p < length S. \<forall>c \<in> set (ls ! p). rowIndex c \<in> set rows"
    and from_lists: "\<forall>l \<in> set lists. \<exists>p < length S. l = ls ! p \<or> mirror nav (ls ! p) = Some (Inr l)"
    using traverseGrid_lists [OF g ref n] by blast
  have chc: "chain (findNextColumnIndex nav) cols" and chr: "chain (findNextRowIndex nav) rows"
    using g by (auto simp: grid_def axis_def)
  have cov: "Coordinate (cols ! j) (rows ! (q + t * minSize)) \<in> set (ls ! p)"
    if "p < length S" "j < ?W" "q < ?H" "q + t * minSize < ?H"
      "S ! ((p + j) mod length S) = rows ! q" for p j q t
    using cover that by blast
  have Hp: "\<exists>j. j0 \<le> j \<and> j < j0 + minSize \<and> Coordinate (cols ! j) (rows ! i) \<in> set (ls ! p)"
    if p: "p < length S" and r: "j0 + minSize \<le> ?W" "i < ?H" for p j0 i
    by (rule diagonal_meets_runs(1) [OF n Sne setS lS p cov [OF p] r])
  have Vp: "\<exists>i. i0 \<le> i \<and> i < i0 + minSize \<and> Coordinate (cols ! j) (rows ! i) \<in> set (ls ! p)"
    if p: "p < length S" and r: "j < ?W" "i0 + minSize \<le> ?H" for p j i0
    by (rule diagonal_meets_runs(2) [OF n Sne setS lS p cov [OF p] r])
  have flip: "Coordinate x (rows ! (?H - 1 - k)) \<in> set m"
    if p: "p < length S" and m: "mirror nav (ls ! p) = Some (Inr m)"
      and k: "k < ?H" "Coordinate x (rows ! k) \<in> set (ls ! p)" for p m x k
  proof -
    have "\<forall>c \<in> set (ls ! p). rowIndex c \<in> set rows" using rows_in p by blast
    then show ?thesis using m k by (rule mirror_on_grid [OF g ref])
  qed
  have Hl: "\<exists>j. j0 \<le> j \<and> j < j0 + minSize \<and> Coordinate (cols ! j) (rows ! i) \<in> set l"
    if l: "l \<in> set lists" and r: "j0 + minSize \<le> ?W" "i < ?H" for l j0 i
  proof -
    obtain p where p: "p < length S" and c: "l = ls ! p \<or> mirror nav (ls ! p) = Some (Inr l)"
      using from_lists l by blast
    from c show ?thesis
    proof
      assume "l = ls ! p"
      then show ?thesis using Hp [OF p r] by simp
    next
      assume m: "mirror nav (ls ! p) = Some (Inr l)"
      have i': "?H - 1 - i < ?H" using r(2) by linarith
      obtain j where j: "j0 \<le> j" "j < j0 + minSize"
        "Coordinate (cols ! j) (rows ! (?H - 1 - i)) \<in> set (ls ! p)"
        using Hp [OF p r(1) i'] by blast
      have "Coordinate (cols ! j) (rows ! (?H - 1 - (?H - 1 - i))) \<in> set l"
        using p m i' j(3) by (rule flip)
      moreover have "?H - 1 - (?H - 1 - i) = i" using r(2) by linarith
      ultimately show ?thesis using j(1,2) by auto
    qed
  qed
  have Vl: "\<exists>i. i0 \<le> i \<and> i < i0 + minSize \<and> Coordinate (cols ! j) (rows ! i) \<in> set l"
    if l: "l \<in> set lists" and r: "j < ?W" "i0 + minSize \<le> ?H" for l j i0
  proof -
    obtain p where p: "p < length S" and c: "l = ls ! p \<or> mirror nav (ls ! p) = Some (Inr l)"
      using from_lists l by blast
    from c show ?thesis
    proof
      assume "l = ls ! p"
      then show ?thesis using Vp [OF p r] by simp
    next
      assume m: "mirror nav (ls ! p) = Some (Inr l)"
      have r': "(?H - minSize - i0) + minSize \<le> ?H" using r(2) by linarith
      obtain i where i: "?H - minSize - i0 \<le> i" "i < (?H - minSize - i0) + minSize"
        "Coordinate (cols ! j) (rows ! i) \<in> set (ls ! p)"
        using Vp [OF p r(1) r'] by blast
      have il: "i < ?H" using i(2) r(2) by linarith
      have "Coordinate (cols ! j) (rows ! (?H - 1 - i)) \<in> set l"
        using p m il i(3) by (rule flip)
      moreover have "i0 \<le> ?H - 1 - i" using i(2) r(2) by linarith
      moreover have "?H - 1 - i < i0 + minSize" using i(1) r(2) n by linarith
      ultimately show ?thesis by blast
    qed
  qed
  obtain k where k: "minSize = Suc k" using n by (cases minSize) auto
  obtain j0 i where j0: "j0 < ?W" "cols ! j0 = columnIndex start"
    and i: "i < ?H" "rows ! i = rowIndex start"
    using start by (auto simp: on_grid_def in_set_conv_nth)
  have meets: "\<exists>cell \<in> set cells. cell \<in> set l" if l: "l \<in> set lists" for l
  proof -
    from run consider
      xs where "run_from (findNextColumnIndex nav) (columnIndex start) minSize = Some xs"
        "cells = map (\<lambda>x. Coordinate x (rowIndex start)) xs"
    | ys where "run_from (findNextRowIndex nav) (rowIndex start) minSize = Some ys"
        "cells = map (\<lambda>y. Coordinate (columnIndex start) y) ys"
      by blast
    then show ?thesis
    proof cases
      case 1
      have "run_from (findNextColumnIndex nav) (cols ! j0) (Suc k) = Some xs"
        using 1(1) by (simp add: j0(2) k)
      then have rc: "j0 + Suc k \<le> ?W \<and> xs = map (nth cols) [j0..<j0 + Suc k]"
        using chc j0(1) by (intro run_from_chain)
      then have "j0 + minSize \<le> ?W" by (simp add: k)
      then obtain j where j: "j0 \<le> j" "j < j0 + minSize" "Coordinate (cols ! j) (rows ! i) \<in> set l"
        using Hl [OF l _ i(1)] by blast
      have "j \<in> set [j0..<j0 + Suc k]" using j(1,2) unfolding k by (simp only: set_upt atLeastLessThan_iff)
      then have "cols ! j \<in> set xs"
        unfolding conjunct2 [OF rc] set_map by (rule imageI)
      then have "Coordinate (cols ! j) (rows ! i) \<in> set cells"
        unfolding 1(2) i(2) by simp
      then show ?thesis using j(3) by blast
    next
      case 2
      have "run_from (findNextRowIndex nav) (rows ! i) (Suc k) = Some ys"
        using 2(1) by (simp add: i(2) k)
      then have rc: "i + Suc k \<le> ?H \<and> ys = map (nth rows) [i..<i + Suc k]"
        using chr i(1) by (intro run_from_chain)
      then have "i + minSize \<le> ?H" by (simp add: k)
      then obtain i' where i': "i \<le> i'" "i' < i + minSize" "Coordinate (cols ! j0) (rows ! i') \<in> set l"
        using Vl [OF l j0(1)] by blast
      have "i' \<in> set [i..<i + Suc k]" using i'(1,2) unfolding k by (simp only: set_upt atLeastLessThan_iff)
      then have "rows ! i' \<in> set ys"
        unfolding conjunct2 [OF rc] set_map by (rule imageI)
      then have "Coordinate (cols ! j0) (rows ! i') \<in> set cells"
        unfolding 2(2) j0(2) by simp
      then show ?thesis using i'(3) by blast
    qed
  qed
  have "lists \<noteq> []"
  proof -
    obtain lists' where "traverseGrid nav minSize = Some (Inr lists')"
      "\<forall>c. on_grid cols rows c \<longrightarrow> (\<exists>l \<in> set lists'. c \<in> set l)"
      using traverseGrid_covers_grid [OF g ref n] by blast
    then have "\<exists>l \<in> set lists. start \<in> set l" using tg start by simp
    then show ?thesis by auto
  qed
  then show ?thesis using tg meets by blast
qed

text \<open>
  C1. On a well-formed grid whose reference coordinate lies on the grid, for every
  positive \<open>minSize\<close>, \<open>traverseGrid minSize\<close> returns a list of lists, and every
  horizontal or vertical run of \<open>minSize\<close> contiguous cells that starts at a coordinate
  of the grid has at least one cell in some list of the output. More is true: each cell
  of the run is in some list of the output, and each list of the output on its own
  holds a cell of the run.
\<close>

theorem traverseGrid_meets_every_run:
  assumes g: "grid nav cols rows" and ref: "on_grid cols rows (reference nav)" and n: "0 < minSize"
    and start: "on_grid cols rows start"
    and run: "(\<exists>xs. run_from (findNextColumnIndex nav) (columnIndex start) minSize = Some xs
                  \<and> cells = map (\<lambda>x. Coordinate x (rowIndex start)) xs)
            \<or> (\<exists>ys. run_from (findNextRowIndex nav) (rowIndex start) minSize = Some ys
                  \<and> cells = map (\<lambda>y. Coordinate (columnIndex start) y) ys)"
  shows "\<exists>lists. traverseGrid nav minSize = Some (Inr lists)
           \<and> (\<exists>cell \<in> set cells. \<exists>l \<in> set lists. cell \<in> set l)
           \<and> (\<forall>cell \<in> set cells. \<exists>l \<in> set lists. cell \<in> set l)
           \<and> (\<forall>l \<in> set lists. \<exists>cell \<in> set cells. cell \<in> set l)"
proof -
  obtain k where k: "minSize = Suc k" using n by (cases minSize) auto
  have chc: "chain (findNextColumnIndex nav) cols" and chr: "chain (findNextRowIndex nav) rows"
    using g by (auto simp: grid_def axis_def)
  have sc: "columnIndex start \<in> set cols" and sr: "rowIndex start \<in> set rows"
    using start by (auto simp: on_grid_def)
  from run consider
    xs where "run_from (findNextColumnIndex nav) (columnIndex start) minSize = Some xs"
      "cells = map (\<lambda>x. Coordinate x (rowIndex start)) xs"
  | ys where "run_from (findNextRowIndex nav) (rowIndex start) minSize = Some ys"
      "cells = map (\<lambda>y. Coordinate (columnIndex start) y) ys"
    by blast
  then have s: "start \<in> set cells \<and> (\<forall>cell \<in> set cells. on_grid cols rows cell)"
  proof cases
    case 1
    have "columnIndex start \<in> set xs" using 1(1) unfolding k by (rule run_from_start)
    then have a: "start \<in> set cells"
      unfolding 1(2) by (auto intro!: image_eqI [where x = "columnIndex start"])
    have "set xs \<subseteq> set cols" using chc sc 1(1) by (rule run_from_on_axis)
    then have "\<forall>cell \<in> set cells. on_grid cols rows cell"
      unfolding 1(2) using sr by (auto simp: on_grid_def)
    then show ?thesis using a by simp
  next
    case 2
    have "rowIndex start \<in> set ys" using 2(1) unfolding k by (rule run_from_start)
    then have a: "start \<in> set cells"
      unfolding 2(2) by (auto intro!: image_eqI [where x = "rowIndex start"])
    have "set ys \<subseteq> set rows" using chr sr 2(1) by (rule run_from_on_axis)
    then have "\<forall>cell \<in> set cells. on_grid cols rows cell"
      unfolding 2(2) using sc by (auto simp: on_grid_def)
    then show ?thesis using a by simp
  qed
  obtain lists where l: "traverseGrid nav minSize = Some (Inr lists)"
    and c: "\<forall>c. on_grid cols rows c \<longrightarrow> (\<exists>l \<in> set lists. c \<in> set l)"
    using traverseGrid_covers_grid [OF g ref n] by blast
  have all: "\<forall>cell \<in> set cells. \<exists>l \<in> set lists. cell \<in> set l" using c s by blast
  then have one: "\<exists>cell \<in> set cells. \<exists>l \<in> set lists. cell \<in> set l" using s by blast
  have each: "\<forall>l \<in> set lists. \<exists>cell \<in> set cells. cell \<in> set l"
    using traverseGrid_each_list_meets_run [OF g ref n start run] l by auto
  show ?thesis using l one all each by blast
qed

theorem traverseGrid_meets_every_run_witness:
  "grid exampleGrid exampleColumns exampleRows
   \<and> on_grid exampleColumns exampleRows (reference exampleGrid)
   \<and> on_grid exampleColumns exampleRows (Coordinate ColB 2)
   \<and> run_from (findNextColumnIndex exampleGrid) ColB 3 = Some [ColB, ColC, ColD]
   \<and> (\<exists>lists. traverseGrid exampleGrid 3 = Some (Inr lists)
         \<and> (\<exists>cell \<in> set [Coordinate ColB 2, Coordinate ColC 2, Coordinate ColD 2].
               \<exists>l \<in> set lists. cell \<in> set l))"
proof -
  have r: "on_grid exampleColumns exampleRows (reference exampleGrid)"
    by (simp add: on_grid_def exampleColumns_def exampleRows_def exampleGrid_def)
  have s: "on_grid exampleColumns exampleRows (Coordinate ColB 2)"
    by (simp add: on_grid_def exampleColumns_def exampleRows_def)
  have run: "run_from (findNextColumnIndex exampleGrid) ColB 3 = Some [ColB, ColC, ColD]"
    by (simp add: exampleGrid_def numeral_3_eq_3)
  have n: "0 < (3::nat)" by simp
  have d: "(\<exists>xs. run_from (findNextColumnIndex exampleGrid) (columnIndex (Coordinate ColB (2::nat))) 3 = Some xs
              \<and> [Coordinate ColB 2, Coordinate ColC 2, Coordinate ColD 2]
                 = map (\<lambda>x. Coordinate x (rowIndex (Coordinate ColB (2::nat)))) xs)
        \<or> (\<exists>ys. run_from (findNextRowIndex exampleGrid) (rowIndex (Coordinate ColB (2::nat))) 3 = Some ys
              \<and> [Coordinate ColB 2, Coordinate ColC 2, Coordinate ColD 2]
                 = map (\<lambda>y. Coordinate (columnIndex (Coordinate ColB (2::nat))) y) ys)"
    using run by simp
  have "\<exists>lists. traverseGrid exampleGrid 3 = Some (Inr lists)
         \<and> (\<exists>cell \<in> set [Coordinate ColB 2, Coordinate ColC 2, Coordinate ColD 2].
               \<exists>l \<in> set lists. cell \<in> set l)"
    using traverseGrid_meets_every_run [OF exampleGrid_grid r n s d] by blast
  then show ?thesis using exampleGrid_grid r s run by blast
qed

end
